theory Spec2Isabelle
  imports Complex_Main "HOL-Library.Log_Nat"
begin

section \<open>JavaScript numbers\<close>

text \<open>
  The component computes with JavaScript numbers: IEEE 754 binary64 values. A finite
  value is kept as the rational it denotes; every arithmetic result is rounded to the
  nearest binary64 value (ties to even), overflowing to an infinity. The sign of zero
  is not kept: nothing in the component divides by a zero or prints one through a path
  that tells \<open>-0\<close> from \<open>0\<close>.
\<close>

datatype jsnum = NaN | PInf | NInf | Fin rat

definition ipow :: "rat \<Rightarrow> int \<Rightarrow> rat" where
  "ipow b e = (if 0 \<le> e then b ^ nat e else 1 / b ^ nat (- e))"

text \<open>\<open>flog2 x\<close> is the binary exponent of a positive \<open>x\<close>: \<open>2^e \<le> x < 2^(e+1)\<close>.\<close>

definition flog2 :: "rat \<Rightarrow> int" where
  "flog2 x = (if 1 \<le> x then bitlen \<lfloor>x\<rfloor> - 1 else - bitlen (\<lceil>1 / x\<rceil> - 1))"

definition round_half_even :: "rat \<Rightarrow> int" where
  "round_half_even m =
     (let f = \<lfloor>m\<rfloor>; d = m - of_int f
      in if d < 1 / 2 then f else if 1 / 2 < d then f + 1 else if even f then f else f + 1)"

text \<open>
  Rounding to binary64: 53 significant bits, the least exponent of a unit in the last
  place is \<open>-1074\<close> (subnormal numbers), and a rounded magnitude of \<open>2^1024\<close> or more is an
  infinity.
\<close>

definition round64 :: "rat \<Rightarrow> jsnum" where
  "round64 x =
     (if x = 0 then Fin 0
      else let e = max (flog2 \<bar>x\<bar> - 52) (- 1074);
               y = of_int (round_half_even (x / ipow 2 e)) * ipow 2 e
           in if 2 ^ 1024 \<le> y then PInf else if y \<le> - (2 ^ 1024) then NInf else Fin y)"

fun jneg :: "jsnum \<Rightarrow> jsnum" where
  "jneg NaN = NaN"
| "jneg PInf = NInf"
| "jneg NInf = PInf"
| "jneg (Fin a) = Fin (- a)"

text \<open>The sign of a number that is not \<open>NaN\<close>: \<open>-1\<close>, \<open>0\<close> or \<open>1\<close>.\<close>

fun jsign :: "jsnum \<Rightarrow> int" where
  "jsign NaN = 0"
| "jsign PInf = 1"
| "jsign NInf = - 1"
| "jsign (Fin a) = (if a < 0 then - 1 else if a = 0 then 0 else 1)"

definition inf_of_sign :: "int \<Rightarrow> jsnum" where
  "inf_of_sign s = (if s = 0 then NaN else if 0 < s then PInf else NInf)"

text \<open>The operators \<open>*\<close>, \<open>/\<close>, \<open>+\<close> and \<open>>\<close> of the language.\<close>

fun jmul :: "jsnum \<Rightarrow> jsnum \<Rightarrow> jsnum" where
  "jmul NaN y = NaN"
| "jmul x NaN = NaN"
| "jmul (Fin a) (Fin b) = round64 (a * b)"
| "jmul x y = inf_of_sign (jsign x * jsign y)"

fun jdiv :: "jsnum \<Rightarrow> jsnum \<Rightarrow> jsnum" where
  "jdiv NaN y = NaN"
| "jdiv x NaN = NaN"
| "jdiv (Fin a) (Fin b) = (if b = 0 then inf_of_sign (jsign (Fin a)) else round64 (a / b))"
| "jdiv (Fin a) y = Fin 0"
| "jdiv x (Fin b) = inf_of_sign (jsign x * (if b < 0 then - 1 else 1))"
| "jdiv x y = NaN"

fun jadd :: "jsnum \<Rightarrow> jsnum \<Rightarrow> jsnum" where
  "jadd NaN y = NaN"
| "jadd x NaN = NaN"
| "jadd (Fin a) (Fin b) = round64 (a + b)"
| "jadd (Fin a) y = y"
| "jadd x (Fin b) = x"
| "jadd x y = (if x = y then x else NaN)"

fun jgt :: "jsnum \<Rightarrow> jsnum \<Rightarrow> bool" where
  "jgt NaN y = False"
| "jgt x NaN = False"
| "jgt (Fin a) (Fin b) = (b < a)"
| "jgt x PInf = False"
| "jgt NInf y = False"
| "jgt x y = True"

definition isNaN :: "jsnum \<Rightarrow> bool" where
  "isNaN x = (x = NaN)"

text \<open>Truthiness of a number: every number but \<open>NaN\<close> and zero.\<close>

definition truthy_num :: "jsnum \<Rightarrow> bool" where
  "truthy_num x = (x \<noteq> NaN \<and> x \<noteq> Fin 0)"

text \<open>\<open>x || 0\<close> on a number \<open>x\<close>.\<close>

definition or_zero :: "jsnum \<Rightarrow> jsnum" where
  "or_zero x = (if truthy_num x then x else Fin 0)"

section \<open>Strings and \<open>parseFloat\<close>\<close>

text \<open>
  A string is its list of code units, here below 256. White space is TAB, LF, VT, FF,
  CR, SP and NBSP.
\<close>

definition is_ws :: "char \<Rightarrow> bool" where
  "is_ws c = ((of_char c :: nat) \<in> {9, 10, 11, 12, 13, 32, 160})"

definition trimStart :: "string \<Rightarrow> string" where
  "trimStart s = dropWhile is_ws s"

definition trim :: "string \<Rightarrow> string" where
  "trim s = rev (dropWhile is_ws (rev (dropWhile is_ws s)))"

definition is_digit :: "char \<Rightarrow> bool" where
  "is_digit c = (48 \<le> (of_char c :: nat) \<and> (of_char c :: nat) \<le> 57)"

text \<open>The number a string of decimal digits denotes; the accumulator is the value so far.\<close>

fun digits_val :: "nat \<Rightarrow> string \<Rightarrow> nat" where
  "digits_val acc [] = acc"
| "digits_val acc (c # cs) = digits_val (10 * acc + (of_char c - 48)) cs"

text \<open>
  The exponent part of a decimal literal: \<open>e\<close> or \<open>E\<close>, an optional sign and at least one
  digit. Anything else is not part of the literal, and the exponent is 0.
\<close>

definition parse_exponent :: "string \<Rightarrow> int" where
  "parse_exponent s =
     (case s of
        [] \<Rightarrow> 0
      | c # r \<Rightarrow>
          if c = CHR ''e'' \<or> c = CHR ''E'' then
            (case r of
               [] \<Rightarrow> 0
             | sg # r' \<Rightarrow>
                 if sg = CHR ''-'' then
                   (if takeWhile is_digit r' = [] then 0
                    else - int (digits_val 0 (takeWhile is_digit r')))
                 else if sg = CHR ''+'' then int (digits_val 0 (takeWhile is_digit r'))
                 else int (digits_val 0 (takeWhile is_digit r)))
          else 0)"

text \<open>
  The longest prefix that is an unsigned decimal literal, and its value: \<open>Infinity\<close>, or
  digits with an optional fraction and an optional exponent; at least one digit before
  or after the point. No such prefix gives \<open>NaN\<close>.
\<close>

definition parse_unsigned :: "string \<Rightarrow> jsnum" where
  "parse_unsigned s =
     (if take 8 s = ''Infinity'' then PInf
      else
        let ip = takeWhile is_digit s;
            r1 = dropWhile is_digit s;
            fp = (case r1 of [] \<Rightarrow> [] | c # r \<Rightarrow> if c = CHR ''.'' then takeWhile is_digit r else []);
            r2 = (case r1 of [] \<Rightarrow> [] | c # r \<Rightarrow> if c = CHR ''.'' then dropWhile is_digit r else r1)
        in if ip = [] \<and> fp = [] then NaN
           else round64 (of_nat (digits_val 0 (ip @ fp)) * ipow 10 (parse_exponent r2 - int (length fp))))"

definition parseFloat :: "string \<Rightarrow> jsnum" where
  "parseFloat str =
     (case trimStart str of
        [] \<Rightarrow> NaN
      | c # cs \<Rightarrow>
          if c = CHR ''-'' then jneg (parse_unsigned cs)
          else if c = CHR ''+'' then parse_unsigned cs
          else parse_unsigned (c # cs))"

section \<open>Numbers as text\<close>

definition digit_char :: "nat \<Rightarrow> char" where
  "digit_char d =
     (if d = 0 then CHR ''0'' else if d = 1 then CHR ''1'' else if d = 2 then CHR ''2''
      else if d = 3 then CHR ''3'' else if d = 4 then CHR ''4'' else if d = 5 then CHR ''5''
      else if d = 6 then CHR ''6'' else if d = 7 then CHR ''7'' else if d = 8 then CHR ''8''
      else CHR ''9'')"

text \<open>The decimal digits of a natural number, most significant first.\<close>

fun digits :: "nat \<Rightarrow> string" where
  "digits n = (if n < 10 then [digit_char n] else digits (n div 10) @ [digit_char (n mod 10)])"

declare digits.simps [simp del]

text \<open>\<open>dec_exp x\<close> is the decimal exponent \<open>n\<close> of a positive \<open>x\<close>: \<open>10^(n-1) \<le> x < 10^n\<close>.\<close>

definition dec_exp :: "rat \<Rightarrow> int" where
  "dec_exp x =
     (if 1 \<le> x then int (floorlog 10 (nat \<lfloor>x\<rfloor>))
      else 1 - int (floorlog 10 (nat (\<lceil>1 / x\<rceil> - 1))))"

text \<open>
  \<open>Number::toString\<close> prints a positive finite \<open>x\<close> from integers \<open>k\<close>, \<open>n\<close>, \<open>s\<close> with
  \<open>s\<close> of \<open>k\<close> digits, \<open>s * 10^(n-k)\<close> reading back as \<open>x\<close>, and \<open>k\<close> as small as possible;
  among several \<open>s\<close> the one with \<open>s * 10^(n-k)\<close> closest to \<open>x\<close>. For a given \<open>k\<close> and
  \<open>n\<close> only the two integers next to \<open>x / 10^(n-k)\<close> can be closest.
\<close>

definition cands :: "rat \<Rightarrow> nat \<Rightarrow> int \<Rightarrow> (nat \<times> int) list" where
  "cands x k n =
     (let lo = nat \<lfloor>x / ipow 10 (n - int k)\<rfloor>
      in filter (\<lambda>(s, n'). 10 ^ (k - 1) \<le> s \<and> s < 10 ^ k \<and>
                    round64 (of_nat s * ipow 10 (n' - int k)) = Fin x)
           [(lo, n), (lo + 1, n)])"

definition dist :: "rat \<Rightarrow> nat \<Rightarrow> (nat \<times> int) \<Rightarrow> rat" where
  "dist x k c = \<bar>of_nat (fst c) * ipow 10 (snd c - int k) - x\<bar>"

fun closest :: "rat \<Rightarrow> nat \<Rightarrow> (nat \<times> int) list \<Rightarrow> (nat \<times> int) option" where
  "closest x k [] = None"
| "closest x k (c # cs) =
     (case closest x k cs of
        None \<Rightarrow> Some c
      | Some d \<Rightarrow>
          if dist x k c < dist x k d \<or> (dist x k c = dist x k d \<and> even (fst c)) then Some c
          else Some d)"

text \<open>The search for the least \<open>k\<close>, from \<open>k\<close> on, through at most \<open>fuel\<close> values.\<close>

fun shortest :: "rat \<Rightarrow> nat \<Rightarrow> nat \<Rightarrow> (nat \<times> int \<times> nat) option" where
  "shortest x fuel k =
     (if fuel = 0 then None
      else case closest x k (cands x k (dec_exp x) @ cands x k (dec_exp x + 1)) of
             Some (s, n) \<Rightarrow> Some (k, n, s)
           | None \<Rightarrow> shortest x (fuel - 1) (Suc k))"

declare shortest.simps [simp del]

definition render_dec :: "nat \<Rightarrow> int \<Rightarrow> nat \<Rightarrow> string" where
  "render_dec k n s =
     (let ds = digits s
      in if int k \<le> n \<and> n \<le> 21 then ds @ replicate (nat (n - int k)) (CHR ''0'')
         else if 0 < n \<and> n \<le> 21 then take (nat n) ds @ ''.'' @ drop (nat n) ds
         else if - 6 < n \<and> n \<le> 0 then ''0.'' @ replicate (nat (- n)) (CHR ''0'') @ ds
         else
           let ex = (if 0 \<le> n - 1 then ''+'' else ''-'') @ digits (nat \<bar>n - 1\<bar>)
           in if k = 1 then ds @ ''e'' @ ex else take 1 ds @ ''.'' @ drop 1 ds @ ''e'' @ ex)"

text \<open>
  Every binary64 value has a decimal expansion that reads back as it, of fewer than
  1400 digits (17 suffice); the text for a search that finds none is never printed for
  a binary64 value.
\<close>

definition pos_to_string :: "rat \<Rightarrow> string" where
  "pos_to_string x =
     (case shortest x 1400 1 of Some (k, n, s) \<Rightarrow> render_dec k n s | None \<Rightarrow> ''?'')"

text \<open>\<open>Number.prototype.toString\<close>, radix 10.\<close>

definition toString :: "jsnum \<Rightarrow> string" where
  "toString x =
     (case x of
        NaN \<Rightarrow> ''NaN''
      | PInf \<Rightarrow> ''Infinity''
      | NInf \<Rightarrow> ''-Infinity''
      | Fin a \<Rightarrow>
          if a = 0 then ''0'' else if a < 0 then ''-'' @ pos_to_string (- a) else pos_to_string a)"

text \<open>
  \<open>Number.prototype.toFixed\<close> with \<open>f\<close> fraction digits: the integer \<open>n\<close> with \<open>n / 10^f\<close>
  closest to the magnitude (the larger one of two), printed with at least one digit
  before the point; a magnitude of \<open>10^21\<close> or more, an infinity and \<open>NaN\<close> print as
  \<open>toString\<close> prints them.
\<close>

definition toFixed :: "nat \<Rightarrow> jsnum \<Rightarrow> string" where
  "toFixed f x =
     (case x of
        Fin a \<Rightarrow>
          if 10 ^ 21 \<le> \<bar>a\<bar> then toString x
          else
            let m = digits (nat \<lfloor>\<bar>a\<bar> * 10 ^ f + 1 / 2\<rfloor>);
                z = replicate (f + 1 - length m) (CHR ''0'') @ m
            in (if a < 0 then ''-'' else []) @
               (if f = 0 then m else take (length z - f) z @ ''.'' @ drop (length z - f) z)
      | _ \<Rightarrow> toString x)"

text \<open>Comparison of strings with \<open><=\<close>: by code units, a prefix first.\<close>

fun str_le :: "string \<Rightarrow> string \<Rightarrow> bool" where
  "str_le [] t = True"
| "str_le (a # s) [] = False"
| "str_le (a # s) (b # t) = (if a = b then str_le s t else (of_char a :: nat) < of_char b)"

text \<open>
  The binary64 values among the rationals: below \<open>2^1024\<close> in magnitude and a multiple of
  the unit in the last place of their binade.
\<close>

definition binary64 :: "rat \<Rightarrow> bool" where
  "binary64 y =
     (\<bar>y\<bar> < 2 ^ 1024 \<and> (\<exists>n :: int. y = of_int n * ipow 2 (max (flog2 \<bar>y\<bar> - 52) (- 1074))))"

section \<open>The entry form\<close>

datatype TransactionType = PURCHASE | SALE

record form_data =
  date :: string
  type :: TransactionType
  partyName :: string
  quantityGrams :: string
  ratePerGram :: string
  gstRate :: string

record totals =
  taxable :: jsnum
  gstAmt :: jsnum
  total :: jsnum

text \<open>\<open>calculateTotals\<close>, on the form data of the current render.\<close>

definition calculateTotals :: "form_data \<Rightarrow> totals" where
  "calculateTotals fd =
     (let qty = or_zero (parseFloat (quantityGrams fd));
          rate = or_zero (parseFloat (ratePerGram fd));
          gst = or_zero (parseFloat (gstRate fd));
          taxable = jmul qty rate;
          gstAmt = jmul taxable (jdiv gst (Fin 100))
      in \<lparr>taxable = taxable, gstAmt = gstAmt, total = jadd taxable gstAmt\<rparr>)"

text \<open>
  \<open>handleTotalChange\<close>: the text typed into the taxable total sets the rate. The quantity
  is the one of the current render, the update is applied to the form data.
\<close>

definition handleTotalChange :: "string \<Rightarrow> form_data \<Rightarrow> form_data" where
  "handleTotalChange v fd =
     (let total = parseFloat v;
          qty = parseFloat (quantityGrams fd)
      in if \<not> isNaN total \<and> \<not> isNaN qty \<and> jgt qty (Fin 0)
         then fd\<lparr>ratePerGram := toString (jdiv total qty)\<rparr>
         else if v = [] then fd\<lparr>ratePerGram := []\<rparr>
         else fd)"

text \<open>
  The state of the component (its \<open>useState\<close> cells) and its properties. A selected
  file is known by its name and its media type. \<open>onAdd\<close> is an effect: a handler returns
  the new state and the invoices it passed to \<open>onAdd\<close>, in order.
\<close>

datatype Mode = MANUAL | UPLOAD

record File =
  file_name :: string
  file_type :: string

record state =
  mode :: Mode
  ocrText :: string
  selectedFile :: "File option"
  isProcessing :: bool
  formData :: form_data
  error :: string

record props =
  currentStock :: jsnum
  lockDate :: "string option"

text \<open>The invoice record of the application; its fields carry the prefix \<open>inv_\<close> here.\<close>

record Invoice =
  inv_id :: string
  inv_date :: string
  inv_type :: TransactionType
  inv_partyName :: string
  inv_quantityGrams :: jsnum
  inv_ratePerGram :: jsnum
  inv_gstRate :: jsnum
  inv_gstAmount :: jsnum
  inv_taxableAmount :: jsnum
  inv_totalAmount :: jsnum

text \<open>The form data after a submission; \<open>today\<close> is the date of the day, as ISO text.\<close>

definition default_form :: "string \<Rightarrow> form_data" where
  "default_form today =
     \<lparr>date = today, type = PURCHASE, partyName = [], quantityGrams = [], ratePerGram = [],
      gstRate = ''3''\<rparr>"

text \<open>\<open>lockDate && formData.date <= lockDate\<close>: no lock date and the empty one lock nothing.\<close>

definition date_locked :: "string option \<Rightarrow> string \<Rightarrow> bool" where
  "date_locked l d = (case l of None \<Rightarrow> False | Some ld \<Rightarrow> ld \<noteq> [] \<and> str_le d ld)"

text \<open>The lock date inside a template literal.\<close>

definition lock_text :: "string option \<Rightarrow> string" where
  "lock_text l = (case l of None \<Rightarrow> ''null'' | Some ld \<Rightarrow> ld)"

text \<open>
  \<open>handleSubmit\<close>. \<open>newId\<close> is what \<open>generateId()\<close> returns for this call and \<open>today\<close> the
  date of the day; the totals are the ones of the render the handler belongs to.
\<close>

definition handleSubmit :: "props \<Rightarrow> string \<Rightarrow> string \<Rightarrow> state \<Rightarrow> state \<times> Invoice list" where
  "handleSubmit p newId today st =
     (let fd = formData st;
          st1 = st\<lparr>error := []\<rparr>
      in if date_locked (lockDate p) (date fd)
         then (st1\<lparr>error := ''Date Locked! Cannot add before '' @ lock_text (lockDate p) @ ''.''\<rparr>, [])
         else if partyName fd = [] \<or> quantityGrams fd = [] \<or> ratePerGram fd = []
         then (st1\<lparr>error := ''Fill all required fields.''\<rparr>, [])
         else
           let qty = parseFloat (quantityGrams fd)
           in if type fd = SALE \<and> jgt qty (currentStock p)
              then (st1\<lparr>error := ''Insufficient Inventory! Avail: '' @ toFixed 3 (currentStock p) @ ''g''\<rparr>, [])
              else
                (st1\<lparr>formData := default_form today, ocrText := [], selectedFile := None\<rparr>,
                 [\<lparr>inv_id = newId, inv_date = date fd, inv_type = type fd,
                   inv_partyName = partyName fd, inv_quantityGrams = qty,
                   inv_ratePerGram = parseFloat (ratePerGram fd),
                   inv_gstRate = parseFloat (gstRate fd),
                   inv_gstAmount = gstAmt (calculateTotals fd),
                   inv_taxableAmount = taxable (calculateTotals fd),
                   inv_totalAmount = total (calculateTotals fd)\<rparr>]))"

section \<open>Extraction\<close>

text \<open>
  What an awaited call or a call that can throw gives: a value, or an exception with
  its \<open>message\<close> (none when the thrown value has no message).
\<close>

datatype 'a outcome = Threw "string option" | Returned 'a

text \<open>The parts of a request to the extraction service: inline data with its media type, or text.\<close>

datatype part = InlineData string string | TextPart string

text \<open>
  The value \<open>JSON.parse\<close> returns, as far as the handler looks at it: a falsy value, or a
  value with the six properties of the response schema at their declared types, each
  present or not.
\<close>

record extraction =
  x_date :: "string option"
  x_type :: "TransactionType option"
  x_partyName :: "string option"
  x_quantityGrams :: "jsnum option"
  x_ratePerGram :: "jsnum option"
  x_gstRate :: "jsnum option"

datatype parsed = Falsy | Obj extraction

text \<open>
  The result of \<open>parseInvoiceOCR\<close>, a function of the application outside this file, with
  the properties the handler reads. A number that is missing is \<open>NaN\<close> here and a text
  that is missing is empty: the handler tests them for truthiness and against 0 only.
\<close>

record ocr_result =
  r_date :: string
  r_partyName :: string
  r_quantity :: jsnum
  r_rate :: jsnum
  r_gstRate :: jsnum
  r_isSale :: bool

text \<open>
  The world around one run of \<open>handleOcrProcess\<close>: the client constructor, reading the
  file, the service call (its result is \<open>response.text\<close>), \<open>JSON.parse\<close>, the text parser
  and the date of the day.
\<close>

record env =
  createClient :: "unit outcome"
  fileToBase64 :: "File \<Rightarrow> string outcome"
  generateContent :: "part list \<Rightarrow> string option outcome"
  JSON_parse :: "string \<Rightarrow> parsed outcome"
  parseInvoiceOCR :: "string \<Rightarrow> ocr_result option"
  env_today :: string

text \<open>What the handler closes over: the staged text, the file and the form data of its render.\<close>

record closure =
  c_ocrText :: string
  c_selectedFile :: "File option"
  c_formData :: form_data

definition closure_of :: "state \<Rightarrow> closure" where
  "closure_of st =
     \<lparr>c_ocrText = ocrText st, c_selectedFile = selectedFile st, c_formData = formData st\<rparr>"

definition lower_char :: "char \<Rightarrow> char" where
  "lower_char c =
     (let n = (of_char c :: nat)
      in if (65 \<le> n \<and> n \<le> 90) \<or> (192 \<le> n \<and> n \<le> 222 \<and> n \<noteq> 215) then char_of (n + 32) else c)"

definition toLowerCase :: "string \<Rightarrow> string" where
  "toLowerCase s = map lower_char s"

definition endsWith :: "string \<Rightarrow> string \<Rightarrow> bool" where
  "endsWith s t = (length t \<le> length s \<and> drop (length s - length t) s = t)"

definition mime_type :: "File \<Rightarrow> string" where
  "mime_type f =
     (let mimeType = (if file_type f = [] \<and> endsWith (toLowerCase (file_name f)) ''.pdf''
                      then ''application/pdf'' else file_type f)
      in if mimeType = [] then ''application/pdf'' else mimeType)"

definition document_parts :: "File \<Rightarrow> string \<Rightarrow> part list" where
  "document_parts f base64Data =
     [InlineData (mime_type f) base64Data,
      TextPart (''Analyze this invoice document. Extract the following details: Date, '' @
        ''Party Name, Transaction Type (Sale/Purchase), Quantity (Grams), Rate (Price/Gram), '' @
        ''and GST %. If there are multiple items, sum the gold quantity. If Rate is not '' @
        ''explicit, calculate it as TaxableValue / Quantity.'')]"

definition text_parts :: "string \<Rightarrow> part list" where
  "text_parts t =
     [TextPart (''Extract invoice details from this text. Purchase or Sale? Party Name? '' @
        ''Date? Total Grams? Rate? GST Rate? Text: '' @ t)]"

text \<open>\<open>replace(/```json|```/g, '')\<close>: every code fence is removed, left to right.\<close>

fun strip_fences :: "string \<Rightarrow> string" where
  "strip_fences [] = []"
| "strip_fences (c # cs) =
     (if take 7 (c # cs) = ''```json'' then strip_fences (drop 6 cs)
      else if take 3 (c # cs) = ''```'' then strip_fences (drop 2 cs)
      else c # strip_fences cs)"

definition cleanText :: "string option \<Rightarrow> string" where
  "cleanText t = (case t of None \<Rightarrow> ''{}'' | Some s \<Rightarrow> if s = [] then ''{}'' else trim (strip_fences s))"

text \<open>\<open>data && (data.partyName || data.quantityGrams)\<close>.\<close>

definition has_signal :: "parsed \<Rightarrow> bool" where
  "has_signal d =
     (case d of
        Falsy \<Rightarrow> False
      | Obj e \<Rightarrow>
          (case x_partyName e of None \<Rightarrow> False | Some s \<Rightarrow> s \<noteq> []) \<or>
          (case x_quantityGrams e of None \<Rightarrow> False | Some n \<Rightarrow> truthy_num n))"

text \<open>
  The \<open>try\<close> block up to its test of the parsed data: the data when every call returns
  and the data have a party name or a quantity, and the message of what is thrown
  otherwise.
\<close>

definition attempt :: "env \<Rightarrow> closure \<Rightarrow> string option + extraction" where
  "attempt w c =
     (case createClient w of
        Threw m \<Rightarrow> Inl m
      | Returned u \<Rightarrow>
          (case (case c_selectedFile c of
                   Some f \<Rightarrow>
                     (case fileToBase64 w f of
                        Threw m \<Rightarrow> Threw m
                      | Returned base64Data \<Rightarrow> Returned (document_parts f base64Data))
                 | None \<Rightarrow> Returned (text_parts (c_ocrText c))) of
             Threw m \<Rightarrow> Inl m
           | Returned parts \<Rightarrow>
               (case generateContent w parts of
                  Threw m \<Rightarrow> Inl m
                | Returned t \<Rightarrow>
                    (case JSON_parse w (cleanText t) of
                       Threw m \<Rightarrow> Inl m
                     | Returned d \<Rightarrow>
                         (case d of
                            Falsy \<Rightarrow> Inl (Some ''Could not extract valid data'')
                          | Obj e \<Rightarrow>
                              if has_signal d then Inr e
                              else Inl (Some ''Could not extract valid data''))))))"

text \<open>The form data set from the extracted data.\<close>

definition form_of_extraction :: "string \<Rightarrow> extraction \<Rightarrow> form_data" where
  "form_of_extraction d0 e =
     \<lparr>date = (case x_date e of None \<Rightarrow> d0 | Some d \<Rightarrow> if d = [] then d0 else d),
      type = (case x_type e of None \<Rightarrow> PURCHASE | Some t \<Rightarrow> t),
      partyName = (case x_partyName e of None \<Rightarrow> [] | Some s \<Rightarrow> s),
      quantityGrams = (case x_quantityGrams e of None \<Rightarrow> [] | Some n \<Rightarrow> toString n),
      ratePerGram = (case x_ratePerGram e of None \<Rightarrow> [] | Some n \<Rightarrow> toString n),
      gstRate = (case x_gstRate e of None \<Rightarrow> ''3'' | Some n \<Rightarrow> toString n)\<rparr>"

text \<open>The form data set from the result of the text parser, over the form data of the closure.\<close>

definition form_of_ocr :: "form_data \<Rightarrow> ocr_result \<Rightarrow> form_data" where
  "form_of_ocr fd r =
     fd\<lparr>date := (if r_date r = [] then date fd else r_date r),
        partyName := (if r_partyName r = [] then partyName fd else r_partyName r),
        quantityGrams := (if jgt (r_quantity r) (Fin 0) then toString (r_quantity r) else []),
        ratePerGram := (if jgt (r_rate r) (Fin 0) then toString (r_rate r) else []),
        gstRate := (if truthy_num (r_gstRate r) then toString (r_gstRate r) else gstRate fd),
        type := (if r_isSale r then SALE else PURCHASE)\<rparr>"

definition message_text :: "string option \<Rightarrow> string" where
  "message_text m = (case m of None \<Rightarrow> ''Unknown error'' | Some s \<Rightarrow> if s = [] then ''Unknown error'' else s)"

text \<open>
  \<open>handleOcrProcess\<close> in two halves. Up to its first \<open>await\<close>: it returns at once with
  nothing staged, and else raises the busy flag and clears the error.
\<close>

definition ocr_returns_early :: "state \<Rightarrow> bool" where
  "ocr_returns_early st = (trim (ocrText st) = [] \<and> selectedFile st = None)"

definition ocr_start :: "state \<Rightarrow> state" where
  "ocr_start st = st\<lparr>isProcessing := True, error := []\<rparr>"

text \<open>
  From the first \<open>await\<close> on, in a world \<open>w\<close>, for the closure \<open>c\<close> of the call and the
  state \<open>st\<close> the updates apply to. The result is the new state and the texts passed to
  \<open>parseInvoiceOCR\<close>.
\<close>

definition ocr_finish :: "env \<Rightarrow> closure \<Rightarrow> state \<Rightarrow> state \<times> string list" where
  "ocr_finish w c st =
     (case attempt w c of
        Inr e \<Rightarrow>
          (st\<lparr>formData := form_of_extraction (env_today w) e, mode := MANUAL,
              selectedFile := None, isProcessing := False\<rparr>, [])
      | Inl m \<Rightarrow>
          if c_selectedFile c = None \<and> c_ocrText c \<noteq> [] then
            (case parseInvoiceOCR w (c_ocrText c) of
               Some r \<Rightarrow>
                 (st\<lparr>formData := form_of_ocr (c_formData c) r, mode := MANUAL,
                     isProcessing := False\<rparr>, [c_ocrText c])
             | None \<Rightarrow>
                 (st\<lparr>error := ''Auto-extraction failed. Please enter details manually.'',
                     isProcessing := False\<rparr>, [c_ocrText c]))
          else
            (st\<lparr>error := ''Processing failed: '' @ message_text m @ ''. Try manual entry.'',
                isProcessing := False\<rparr>, []))"

section \<open>The component as a transition system\<close>

text \<open>
  The events of the component: the controls it renders and the settling of a pending
  extraction. A submission carries the properties of its render, the new identifier and
  the date of the day; a settling carries the index of the pending call and its world.
\<close>

datatype event =
    SetMode Mode
  | FileChange "File option"
  | RemoveFile
  | TypeOcrText string
  | SetType TransactionType
  | SetDate string
  | SetPartyName string
  | SetQuantity string
  | SetRate string
  | SetGst string
  | TotalChange string
  | Submit props string string
  | ClickProcess
  | Settle nat env

record sys =
  ui :: state
  pending :: "closure list"
  added :: "Invoice list"
  parsed_texts :: "string list"

text \<open>
  Which control is rendered and enabled in a state. The process button is rendered in
  upload mode and disabled with nothing staged or while the busy flag is up; the total
  input is disabled unless the quantity parses to a truthy number.
\<close>

fun enabled :: "sys \<Rightarrow> event \<Rightarrow> bool" where
  "enabled s (SetMode m) = True"
| "enabled s (FileChange f) = (mode (ui s) = UPLOAD)"
| "enabled s RemoveFile = (mode (ui s) = UPLOAD \<and> selectedFile (ui s) \<noteq> None)"
| "enabled s (TypeOcrText t) = (mode (ui s) = UPLOAD \<and> selectedFile (ui s) = None)"
| "enabled s (TotalChange v) =
     (mode (ui s) = MANUAL \<and> truthy_num (parseFloat (quantityGrams (formData (ui s)))))"
| "enabled s ClickProcess =
     (mode (ui s) = UPLOAD \<and>
      \<not> ((ocrText (ui s) = [] \<and> selectedFile (ui s) = None) \<or> isProcessing (ui s)))"
| "enabled s (Settle i w) = (i < length (pending s))"
| "enabled s e = (mode (ui s) = MANUAL)"

definition edit_form :: "(form_data \<Rightarrow> form_data) \<Rightarrow> sys \<Rightarrow> sys" where
  "edit_form f s = s\<lparr>ui := (ui s)\<lparr>formData := f (formData (ui s))\<rparr>\<rparr>"

fun step :: "sys \<Rightarrow> event \<Rightarrow> sys" where
  "step s (SetMode m) = s\<lparr>ui := (ui s)\<lparr>mode := m\<rparr>\<rparr>"
| "step s (FileChange f) =
     (case f of None \<Rightarrow> s | Some x \<Rightarrow> s\<lparr>ui := (ui s)\<lparr>selectedFile := Some x, ocrText := []\<rparr>\<rparr>)"
| "step s RemoveFile = s\<lparr>ui := (ui s)\<lparr>selectedFile := None\<rparr>\<rparr>"
| "step s (TypeOcrText t) = s\<lparr>ui := (ui s)\<lparr>ocrText := t\<rparr>\<rparr>"
| "step s (SetType t) = edit_form (\<lambda>fd. fd\<lparr>type := t\<rparr>) s"
| "step s (SetDate d) = edit_form (\<lambda>fd. fd\<lparr>date := d\<rparr>) s"
| "step s (SetPartyName n) = edit_form (\<lambda>fd. fd\<lparr>partyName := n\<rparr>) s"
| "step s (SetQuantity q) = edit_form (\<lambda>fd. fd\<lparr>quantityGrams := q\<rparr>) s"
| "step s (SetRate r) = edit_form (\<lambda>fd. fd\<lparr>ratePerGram := r\<rparr>) s"
| "step s (SetGst g) = edit_form (\<lambda>fd. fd\<lparr>gstRate := g\<rparr>) s"
| "step s (TotalChange v) = edit_form (handleTotalChange v) s"
| "step s (Submit p newId d0) =
     s\<lparr>ui := fst (handleSubmit p newId d0 (ui s)),
       added := added s @ snd (handleSubmit p newId d0 (ui s))\<rparr>"
| "step s ClickProcess =
     (if ocr_returns_early (ui s) then s
      else s\<lparr>ui := ocr_start (ui s), pending := pending s @ [closure_of (ui s)]\<rparr>)"
| "step s (Settle i w) =
     s\<lparr>ui := fst (ocr_finish w (pending s ! i) (ui s)),
       pending := take i (pending s) @ drop (Suc i) (pending s),
       parsed_texts := parsed_texts s @ snd (ocr_finish w (pending s ! i) (ui s))\<rparr>"

text \<open>An event on a control that is not rendered or is disabled does not happen.\<close>

definition exec :: "sys \<Rightarrow> event \<Rightarrow> sys" where
  "exec s e = (if enabled s e then step s e else s)"

definition run :: "sys \<Rightarrow> event list \<Rightarrow> sys" where
  "run s es = foldl exec s es"

text \<open>The component as mounted on the day \<open>d0\<close>.\<close>

definition init :: "string \<Rightarrow> sys" where
  "init d0 =
     \<lparr>ui = \<lparr>mode = MANUAL, ocrText = [], selectedFile = None, isProcessing = False,
             formData = default_form d0, error = []\<rparr>,
      pending = [], added = [], parsed_texts = []\<rparr>"

text \<open>
  The invariant of the busy flag: at most one call is pending, and the flag is up exactly
  while one is.
\<close>

definition busy_inv :: "sys \<Rightarrow> bool" where
  "busy_inv s = (length (pending s) \<le> 1 \<and> isProcessing (ui s) = (pending s \<noteq> []))"

text \<open>A state to try the handlers on: the form as first rendered on 2024-05-01.\<close>

definition st0 :: state where
  "st0 = \<lparr>mode = MANUAL, ocrText = [], selectedFile = None, isProcessing = False,
          formData = default_form ''2024-05-01'', error = []\<rparr>"




section \<open>Evaluation of numbers and strings\<close>

lemma floor_rat_numeral_div [simp]:
  "\<lfloor>numeral a / numeral b :: rat\<rfloor> = numeral a div numeral b"
  by (metis floor_divide_of_int_eq of_int_numeral)

lemma ceiling_rat_numeral_div [simp]:
  "\<lceil>numeral a / numeral b :: rat\<rceil> = - (- numeral a div numeral b)"
  by (metis ceiling_divide_eq_div of_int_numeral)

lemma replicate_pred_numeral: "replicate (numeral n) x = x # replicate (pred_numeral n) x"
  by (simp add: numeral_eq_Suc)

lemmas round64_eval =
  round64_def flog2_def compute_bitlen ipow_def round_half_even_def Let_def

lemmas parseFloat_eval =
  parseFloat_def trimStart_def parse_unsigned_def parse_exponent_def is_ws_def is_digit_def

lemmas toString_eval =
  toString_def pos_to_string_def shortest.simps cands_def dec_exp_def compute_floorlog dist_def
  render_dec_def digits.simps digit_char_def replicate_pred_numeral

lemmas toFixed_eval =
  toFixed_def digits.simps digit_char_def replicate_pred_numeral


lemma parseFloat_empty: "parseFloat [] = NaN"
  by (simp add: parseFloat_eval)

section \<open>Totals\<close>


lemma parseFloat_4: "parseFloat ''4'' = Fin 4"
  by (simp add: parseFloat_eval round64_eval)

lemma parseFloat_100: "parseFloat ''100'' = Fin 100"
  by (simp add: parseFloat_eval round64_eval)

lemma parseFloat_0: "parseFloat ''0'' = Fin 0"
  by (simp add: parseFloat_eval round64_eval)

lemma parseFloat_abc: "parseFloat ''abc'' = NaN"
  by (simp add: parseFloat_eval)

lemma round64_25: "round64 25 = Fin 25"
  by (simp add: round64_eval)

lemma toString_25: "toString (Fin 25) = ''25''"
  by (simp add: toString_eval round64_eval)

text \<open>
  C2. \<open>handleTotalChange\<close>: with a quantity that parses to a number above 0 and a total
  that parses to a number, the rate becomes the text of total / quantity (and the divisor
  is not zero); with the empty text as total the rate becomes the empty text; in every
  other case the form data are unchanged. The function is total.
\<close>

theorem handleTotalChange_cases:
  "(parseFloat v \<noteq> NaN \<and> parseFloat (quantityGrams fd) \<noteq> NaN \<and>
      jgt (parseFloat (quantityGrams fd)) (Fin 0) \<longrightarrow>
      handleTotalChange v fd =
        fd\<lparr>ratePerGram := toString (jdiv (parseFloat v) (parseFloat (quantityGrams fd)))\<rparr> \<and>
      parseFloat (quantityGrams fd) \<noteq> Fin 0) \<and>
   (v = [] \<longrightarrow> handleTotalChange v fd = fd\<lparr>ratePerGram := []\<rparr>) \<and>
   (v \<noteq> [] \<and>
      (parseFloat v = NaN \<or> parseFloat (quantityGrams fd) = NaN \<or>
       \<not> jgt (parseFloat (quantityGrams fd)) (Fin 0)) \<longrightarrow>
      handleTotalChange v fd = fd)"
proof (intro conjI impI)
  assume a: "parseFloat v \<noteq> NaN \<and> parseFloat (quantityGrams fd) \<noteq> NaN \<and>
      jgt (parseFloat (quantityGrams fd)) (Fin 0)"
  then show "handleTotalChange v fd =
        fd\<lparr>ratePerGram := toString (jdiv (parseFloat v) (parseFloat (quantityGrams fd)))\<rparr>"
    by (simp add: handleTotalChange_def isNaN_def Let_def)
  from a show "parseFloat (quantityGrams fd) \<noteq> Fin 0"
    by auto
next
  assume "v = []"
  then show "handleTotalChange v fd = fd\<lparr>ratePerGram := []\<rparr>"
    by (simp add: handleTotalChange_def isNaN_def Let_def parseFloat_empty)
next
  assume "v \<noteq> [] \<and>
      (parseFloat v = NaN \<or> parseFloat (quantityGrams fd) = NaN \<or>
       \<not> jgt (parseFloat (quantityGrams fd)) (Fin 0))"
  then show "handleTotalChange v fd = fd"
    by (auto simp: handleTotalChange_def isNaN_def Let_def)
qed

theorem handleTotalChange_cases_witness:
  "handleTotalChange ''100'' ((default_form ''2024-01-01'')\<lparr>quantityGrams := ''4''\<rparr>) =
     (default_form ''2024-01-01'')\<lparr>quantityGrams := ''4'', ratePerGram := ''25''\<rparr> \<and>
   handleTotalChange [] ((default_form ''2024-01-01'')\<lparr>quantityGrams := ''4'', ratePerGram := ''7''\<rparr>) =
     (default_form ''2024-01-01'')\<lparr>quantityGrams := ''4'', ratePerGram := []\<rparr> \<and>
   handleTotalChange ''100'' ((default_form ''2024-01-01'')\<lparr>quantityGrams := ''0'', ratePerGram := ''7''\<rparr>) =
     (default_form ''2024-01-01'')\<lparr>quantityGrams := ''0'', ratePerGram := ''7''\<rparr>"
proof -
  let ?fd = "(default_form ''2024-01-01'')\<lparr>quantityGrams := ''4''\<rparr>"
  have h: "parseFloat ''100'' \<noteq> NaN \<and> parseFloat (quantityGrams ?fd) \<noteq> NaN \<and>
      jgt (parseFloat (quantityGrams ?fd)) (Fin 0)"
    by (simp add: parseFloat_4 parseFloat_100)
  have 1: "handleTotalChange ''100'' ?fd =
      ?fd\<lparr>ratePerGram := toString (jdiv (parseFloat ''100'') (parseFloat (quantityGrams ?fd)))\<rparr>"
    using handleTotalChange_cases [of "''100''" ?fd] h by blast
  have 2: "handleTotalChange [] (?fd\<lparr>ratePerGram := ''7''\<rparr>) = ?fd\<lparr>ratePerGram := ''7'', ratePerGram := []\<rparr>"
    using handleTotalChange_cases [of "[]" "?fd\<lparr>ratePerGram := ''7''\<rparr>"] by blast
  let ?fz = "(default_form ''2024-01-01'')\<lparr>quantityGrams := ''0'', ratePerGram := ''7''\<rparr>"
  have z: "\<not> jgt (parseFloat (quantityGrams ?fz)) (Fin 0)"
    by (simp add: parseFloat_0)
  have 3: "handleTotalChange ''100'' ?fz = ?fz"
    using handleTotalChange_cases [of "''100''" ?fz] z by blast
  show ?thesis
    using 1 2 3 by (simp add: parseFloat_4 parseFloat_100 round64_25 toString_25)
qed

section \<open>Submission\<close>

lemma parseFloat_10: "parseFloat ''10'' = Fin 10"
  by (simp add: parseFloat_eval round64_eval)

lemma parseFloat_10_001: "parseFloat ''10.001'' = Fin (5630062484166541 / 562949953421312)"
  by (simp add: parseFloat_eval round64_eval)

lemma parseFloat_6500: "parseFloat ''6500'' = Fin 6500"
  by (simp add: parseFloat_eval round64_eval)

lemma parseFloat_3: "parseFloat ''3'' = Fin 3"
  by (simp add: parseFloat_eval round64_eval)

lemma toFixed_3_10: "toFixed 3 (Fin 10) = ''10.000''"
  by (simp add: toFixed_eval)

text \<open>
  C4. \<open>handleSubmit\<close> checks the lock date, then the required fields, then the stock, and
  reports the first rule that fails: a date at or before the lock date gives the lock
  error, which names the lock date, whatever else is wrong with the form; with an
  unlocked date an empty required field gives the required-fields error; with an
  unlocked date and all three fields filled a sale above the stock gives the inventory
  error. No invoice is passed to \<open>onAdd\<close> in these cases.
\<close>

theorem handleSubmit_first_failure:
  "(lockDate p = Some l \<and> l \<noteq> [] \<and> str_le (date (formData st)) l \<longrightarrow>
      handleSubmit p newId today st =
        (st\<lparr>error := ''Date Locked! Cannot add before '' @ l @ ''.''\<rparr>, [])) \<and>
   (\<not> date_locked (lockDate p) (date (formData st)) \<and>
      (partyName (formData st) = [] \<or> quantityGrams (formData st) = [] \<or>
       ratePerGram (formData st) = []) \<longrightarrow>
      handleSubmit p newId today st = (st\<lparr>error := ''Fill all required fields.''\<rparr>, [])) \<and>
   (\<not> date_locked (lockDate p) (date (formData st)) \<and>
      partyName (formData st) \<noteq> [] \<and> quantityGrams (formData st) \<noteq> [] \<and>
      ratePerGram (formData st) \<noteq> [] \<and> type (formData st) = SALE \<and>
      jgt (parseFloat (quantityGrams (formData st))) (currentStock p) \<longrightarrow>
      handleSubmit p newId today st =
        (st\<lparr>error := ''Insufficient Inventory! Avail: '' @ toFixed 3 (currentStock p) @ ''g''\<rparr>, []))"
  by (simp add: handleSubmit_def Let_def date_locked_def lock_text_def)

theorem handleSubmit_first_failure_witness:
  "handleSubmit \<lparr>currentStock = Fin 10, lockDate = Some ''2024-03-31''\<rparr> ''id1'' ''2024-05-01''
     (st0\<lparr>formData := (default_form ''2024-03-15'')\<lparr>type := SALE, quantityGrams := ''abc''\<rparr>\<rparr>) =
     (st0\<lparr>formData := (default_form ''2024-03-15'')\<lparr>type := SALE, quantityGrams := ''abc''\<rparr>,
          error := ''Date Locked! Cannot add before 2024-03-31.''\<rparr>, []) \<and>
   handleSubmit \<lparr>currentStock = Fin 10, lockDate = Some ''2024-03-31''\<rparr> ''id1'' ''2024-05-01''
     (st0\<lparr>formData := (default_form ''2024-05-01'')\<lparr>type := SALE, quantityGrams := ''10.001''\<rparr>\<rparr>) =
     (st0\<lparr>formData := (default_form ''2024-05-01'')\<lparr>type := SALE, quantityGrams := ''10.001''\<rparr>,
          error := ''Fill all required fields.''\<rparr>, []) \<and>
   handleSubmit \<lparr>currentStock = Fin 10, lockDate = Some ''2024-03-31''\<rparr> ''id1'' ''2024-05-01''
     (st0\<lparr>formData := (default_form ''2024-05-01'')\<lparr>type := SALE, partyName := ''XYZ'',
          quantityGrams := ''10.001'', ratePerGram := ''6500''\<rparr>\<rparr>) =
     (st0\<lparr>formData := (default_form ''2024-05-01'')\<lparr>type := SALE, partyName := ''XYZ'',
          quantityGrams := ''10.001'', ratePerGram := ''6500''\<rparr>,
          error := ''Insufficient Inventory! Avail: 10.000g''\<rparr>, [])"
proof -
  let ?p = "\<lparr>currentStock = Fin 10, lockDate = Some ''2024-03-31''\<rparr>"
  let ?s1 = "st0\<lparr>formData := (default_form ''2024-03-15'')\<lparr>type := SALE, quantityGrams := ''abc''\<rparr>\<rparr>"
  let ?s2 = "st0\<lparr>formData := (default_form ''2024-05-01'')\<lparr>type := SALE, quantityGrams := ''10.001''\<rparr>\<rparr>"
  let ?s3 = "st0\<lparr>formData := (default_form ''2024-05-01'')\<lparr>type := SALE, partyName := ''XYZ'',
          quantityGrams := ''10.001'', ratePerGram := ''6500''\<rparr>\<rparr>"
  have h1: "lockDate ?p = Some ''2024-03-31'' \<and> ''2024-03-31'' \<noteq> [] \<and>
      str_le (date (formData ?s1)) ''2024-03-31''"
    by (simp add: default_form_def)
  have 1: "handleSubmit ?p ''id1'' ''2024-05-01'' ?s1 =
      (?s1\<lparr>error := ''Date Locked! Cannot add before '' @ ''2024-03-31'' @ ''.''\<rparr>, [])"
    using handleSubmit_first_failure [of ?p "''2024-03-31''" ?s1 "''id1''" "''2024-05-01''"] h1
    by blast
  have h2: "\<not> date_locked (lockDate ?p) (date (formData ?s2)) \<and>
      (partyName (formData ?s2) = [] \<or> quantityGrams (formData ?s2) = [] \<or>
       ratePerGram (formData ?s2) = [])"
    by (simp add: default_form_def date_locked_def)
  have 2: "handleSubmit ?p ''id1'' ''2024-05-01'' ?s2 = (?s2\<lparr>error := ''Fill all required fields.''\<rparr>, [])"
    using handleSubmit_first_failure [of ?p "''2024-03-31''" ?s2 "''id1''" "''2024-05-01''"] h2
    by blast
  have h3: "\<not> date_locked (lockDate ?p) (date (formData ?s3)) \<and>
      partyName (formData ?s3) \<noteq> [] \<and> quantityGrams (formData ?s3) \<noteq> [] \<and>
      ratePerGram (formData ?s3) \<noteq> [] \<and> type (formData ?s3) = SALE \<and>
      jgt (parseFloat (quantityGrams (formData ?s3))) (currentStock ?p)"
    by (simp add: default_form_def date_locked_def parseFloat_10_001)
  have 3: "handleSubmit ?p ''id1'' ''2024-05-01'' ?s3 =
      (?s3\<lparr>error := ''Insufficient Inventory! Avail: '' @ toFixed 3 (currentStock ?p) @ ''g''\<rparr>, [])"
    using handleSubmit_first_failure [of ?p "''2024-03-31''" ?s3 "''id1''" "''2024-05-01''"] h3
    by blast
  show ?thesis
    using 1 2 3 by (simp add: toFixed_3_10)
qed

lemma round64_0: "round64 0 = Fin 0"
  by (simp add: round64_def)

lemma round64_3_100: "round64 (3 / 100) = Fin (1080863910568919 / 36028797018963968)"
  by (simp add: round64_eval)

text \<open>
  C5, as stated, fails: the required-fields rule tests only that the three texts are
  not empty. A purchase with the quantity text \<open>abc\<close>, which does not parse as a number,
  is accepted, and the invoice passed to \<open>onAdd\<close> has the quantity \<open>NaN\<close>.
\<close>

theorem handleSubmit_accepts_non_numeric:
  "parseFloat ''abc'' = NaN \<and>
   handleSubmit \<lparr>currentStock = Fin 10, lockDate = None\<rparr> ''id1'' ''2024-05-01''
     (st0\<lparr>formData := (default_form ''2024-05-01'')\<lparr>partyName := ''ABC Traders'',
          quantityGrams := ''abc'', ratePerGram := ''6500''\<rparr>\<rparr>) =
     (st0,
      [\<lparr>inv_id = ''id1'', inv_date = ''2024-05-01'', inv_type = PURCHASE,
        inv_partyName = ''ABC Traders'', inv_quantityGrams = NaN, inv_ratePerGram = Fin 6500,
        inv_gstRate = Fin 3, inv_gstAmount = Fin 0, inv_taxableAmount = Fin 0,
        inv_totalAmount = Fin 0\<rparr>])"
  by (simp add: handleSubmit_def Let_def date_locked_def default_form_def st0_def
      calculateTotals_def or_zero_def truthy_num_def parseFloat_abc parseFloat_6500 parseFloat_3
      round64_0 round64_3_100)

text \<open>
  C5, amended. With an unlocked date, \<open>handleSubmit\<close> reports the required-fields error
  exactly when the party name, the quantity text or the rate text is empty. A text that
  is not empty passes this rule, whether it parses as a number or not.
\<close>

theorem handleSubmit_required_fields:
  "\<not> date_locked (lockDate p) (date (formData st)) \<Longrightarrow>
   (error (fst (handleSubmit p newId today st)) = ''Fill all required fields.'') =
   (partyName (formData st) = [] \<or> quantityGrams (formData st) = [] \<or>
    ratePerGram (formData st) = [])"
  by (simp add: handleSubmit_def Let_def)

theorem handleSubmit_required_fields_witness:
  "error (fst (handleSubmit \<lparr>currentStock = Fin 10, lockDate = None\<rparr> ''id1'' ''2024-05-01''
      (st0\<lparr>formData := (default_form ''2024-05-01'')\<lparr>partyName := ''ABC Traders'',
          ratePerGram := ''6500''\<rparr>\<rparr>))) = ''Fill all required fields.'' \<and>
   error (fst (handleSubmit \<lparr>currentStock = Fin 10, lockDate = None\<rparr> ''id1'' ''2024-05-01''
      (st0\<lparr>formData := (default_form ''2024-05-01'')\<lparr>partyName := ''ABC Traders'',
          quantityGrams := ''abc'', ratePerGram := ''6500''\<rparr>\<rparr>))) \<noteq> ''Fill all required fields.''"
proof -
  let ?p = "\<lparr>currentStock = Fin 10, lockDate = None\<rparr>"
  let ?s1 = "st0\<lparr>formData := (default_form ''2024-05-01'')\<lparr>partyName := ''ABC Traders'',
          ratePerGram := ''6500''\<rparr>\<rparr>"
  let ?s2 = "st0\<lparr>formData := (default_form ''2024-05-01'')\<lparr>partyName := ''ABC Traders'',
          quantityGrams := ''abc'', ratePerGram := ''6500''\<rparr>\<rparr>"
  have u1: "\<not> date_locked (lockDate ?p) (date (formData ?s1))"
    by (simp add: date_locked_def)
  have u2: "\<not> date_locked (lockDate ?p) (date (formData ?s2))"
    by (simp add: date_locked_def)
  have e1: "partyName (formData ?s1) = [] \<or> quantityGrams (formData ?s1) = [] \<or>
      ratePerGram (formData ?s1) = []"
    by (simp add: default_form_def)
  have e2: "\<not> (partyName (formData ?s2) = [] \<or> quantityGrams (formData ?s2) = [] \<or>
      ratePerGram (formData ?s2) = [])"
    by (simp add: default_form_def)
  show ?thesis
    using handleSubmit_required_fields [OF u1, of "''id1''" "''2024-05-01''"]
      handleSubmit_required_fields [OF u2, of "''id1''" "''2024-05-01''"] e1 e2
    by blast
qed

text \<open>
  C6. A sale that passes the lock and the required-fields rules is accepted when its
  quantity equals the stock, and is rejected with the inventory error, which reports the
  stock to three decimals, when its quantity is above the stock. A purchase that passes
  the first two rules is accepted whatever the stock is.
\<close>

theorem handleSubmit_inventory:
  "\<not> date_locked (lockDate p) (date (formData st)) \<Longrightarrow>
   partyName (formData st) \<noteq> [] \<Longrightarrow> quantityGrams (formData st) \<noteq> [] \<Longrightarrow>
   ratePerGram (formData st) \<noteq> [] \<Longrightarrow>
   (type (formData st) = SALE \<and> parseFloat (quantityGrams (formData st)) = currentStock p \<longrightarrow>
      error (fst (handleSubmit p newId today st)) = [] \<and>
      length (snd (handleSubmit p newId today st)) = 1) \<and>
   (type (formData st) = SALE \<and> jgt (parseFloat (quantityGrams (formData st))) (currentStock p) \<longrightarrow>
      handleSubmit p newId today st =
        (st\<lparr>error := ''Insufficient Inventory! Avail: '' @ toFixed 3 (currentStock p) @ ''g''\<rparr>, [])) \<and>
   (type (formData st) = PURCHASE \<longrightarrow>
      error (fst (handleSubmit p newId today st)) = [] \<and>
      length (snd (handleSubmit p newId today st)) = 1)"
proof -
  have irrefl: "\<not> jgt x x" for x
    by (cases x) simp_all
  assume "\<not> date_locked (lockDate p) (date (formData st))"
    "partyName (formData st) \<noteq> []" "quantityGrams (formData st) \<noteq> []"
    "ratePerGram (formData st) \<noteq> []"
  then show ?thesis
    by (simp add: handleSubmit_def Let_def irrefl)
qed

theorem handleSubmit_inventory_witness:
  "length (snd (handleSubmit \<lparr>currentStock = Fin 10, lockDate = None\<rparr> ''id1'' ''2024-05-01''
      (st0\<lparr>formData := (default_form ''2024-05-01'')\<lparr>type := SALE, partyName := ''XYZ'',
          quantityGrams := ''10'', ratePerGram := ''6500''\<rparr>\<rparr>))) = 1 \<and>
   handleSubmit \<lparr>currentStock = Fin 10, lockDate = None\<rparr> ''id1'' ''2024-05-01''
      (st0\<lparr>formData := (default_form ''2024-05-01'')\<lparr>type := SALE, partyName := ''XYZ'',
          quantityGrams := ''10.001'', ratePerGram := ''6500''\<rparr>\<rparr>) =
     (st0\<lparr>formData := (default_form ''2024-05-01'')\<lparr>type := SALE, partyName := ''XYZ'',
          quantityGrams := ''10.001'', ratePerGram := ''6500''\<rparr>,
          error := ''Insufficient Inventory! Avail: 10.000g''\<rparr>, []) \<and>
   length (snd (handleSubmit \<lparr>currentStock = Fin 10, lockDate = None\<rparr> ''id1'' ''2024-05-01''
      (st0\<lparr>formData := (default_form ''2024-05-01'')\<lparr>partyName := ''XYZ'',
          quantityGrams := ''999'', ratePerGram := ''6500''\<rparr>\<rparr>))) = 1"
proof -
  let ?p = "\<lparr>currentStock = Fin 10, lockDate = None\<rparr>"
  let ?s1 = "st0\<lparr>formData := (default_form ''2024-05-01'')\<lparr>type := SALE, partyName := ''XYZ'',
          quantityGrams := ''10'', ratePerGram := ''6500''\<rparr>\<rparr>"
  let ?s2 = "st0\<lparr>formData := (default_form ''2024-05-01'')\<lparr>type := SALE, partyName := ''XYZ'',
          quantityGrams := ''10.001'', ratePerGram := ''6500''\<rparr>\<rparr>"
  let ?s3 = "st0\<lparr>formData := (default_form ''2024-05-01'')\<lparr>partyName := ''XYZ'',
          quantityGrams := ''999'', ratePerGram := ''6500''\<rparr>\<rparr>"
  have 1: "length (snd (handleSubmit ?p ''id1'' ''2024-05-01'' ?s1)) = 1"
    using handleSubmit_inventory [of ?p ?s1 "''id1''" "''2024-05-01''"]
    by (simp add: date_locked_def default_form_def parseFloat_10)
  have 2: "handleSubmit ?p ''id1'' ''2024-05-01'' ?s2 =
      (?s2\<lparr>error := ''Insufficient Inventory! Avail: '' @ toFixed 3 (currentStock ?p) @ ''g''\<rparr>, [])"
    using handleSubmit_inventory [of ?p ?s2 "''id1''" "''2024-05-01''"]
    by (simp add: date_locked_def default_form_def parseFloat_10_001)
  have 3: "length (snd (handleSubmit ?p ''id1'' ''2024-05-01'' ?s3)) = 1"
    using handleSubmit_inventory [of ?p ?s3 "''id1''" "''2024-05-01''"]
    by (simp add: date_locked_def default_form_def)
  show ?thesis
    using 1 2 3 by (simp add: toFixed_3_10)
qed

text \<open>
  C10. A submission that a rule rejects (a locked date, an empty required field, or a
  sale above the stock) passes no invoice to \<open>onAdd\<close> and changes nothing of the state
  but the error message, which it sets to a text that is not empty: the form data, the
  staged text and the selected file are as before.
\<close>

theorem handleSubmit_rejection_atomic:
  "date_locked (lockDate p) (date (formData st)) \<or>
   partyName (formData st) = [] \<or> quantityGrams (formData st) = [] \<or>
   ratePerGram (formData st) = [] \<or>
   (type (formData st) = SALE \<and> jgt (parseFloat (quantityGrams (formData st))) (currentStock p)) \<Longrightarrow>
   \<exists>e. e \<noteq> [] \<and> handleSubmit p newId today st = (st\<lparr>error := e\<rparr>, []) \<and>
       formData (fst (handleSubmit p newId today st)) = formData st \<and>
       ocrText (fst (handleSubmit p newId today st)) = ocrText st \<and>
       selectedFile (fst (handleSubmit p newId today st)) = selectedFile st"
  by (auto simp: handleSubmit_def Let_def)

theorem handleSubmit_rejection_atomic_witness:
  "\<exists>e. e \<noteq> [] \<and>
     handleSubmit \<lparr>currentStock = Fin 10, lockDate = Some ''2024-03-31''\<rparr> ''id1'' ''2024-05-01''
       (st0\<lparr>ocrText := ''Sold 5g'', formData := (default_form ''2024-03-15'')\<lparr>partyName := ''XYZ''\<rparr>\<rparr>) =
       (st0\<lparr>ocrText := ''Sold 5g'', formData := (default_form ''2024-03-15'')\<lparr>partyName := ''XYZ''\<rparr>,
            error := e\<rparr>, [])"
proof -
  let ?p = "\<lparr>currentStock = Fin 10, lockDate = Some ''2024-03-31''\<rparr>"
  let ?s = "st0\<lparr>ocrText := ''Sold 5g'', formData := (default_form ''2024-03-15'')\<lparr>partyName := ''XYZ''\<rparr>\<rparr>"
  have h: "date_locked (lockDate ?p) (date (formData ?s)) \<or>
     partyName (formData ?s) = [] \<or> quantityGrams (formData ?s) = [] \<or>
     ratePerGram (formData ?s) = [] \<or>
     (type (formData ?s) = SALE \<and> jgt (parseFloat (quantityGrams (formData ?s))) (currentStock ?p))"
    by (simp add: date_locked_def default_form_def)
  show ?thesis
    using handleSubmit_rejection_atomic [OF h, of "''id1''" "''2024-05-01''"] by auto
qed

section \<open>Extraction failures\<close>



lemma parseFloat_5: "parseFloat ''5'' = Fin 5"
  by (simp add: parseFloat_eval round64_eval)





section \<open>One extraction at a time\<close>

lemma handleSubmit_isProcessing:
  "isProcessing (fst (handleSubmit p newId d0 st)) = isProcessing st"
  by (simp add: handleSubmit_def Let_def)

lemma ocr_finish_isProcessing: "\<not> isProcessing (fst (ocr_finish w c st))"
  by (simp add: ocr_finish_def split: sum.splits option.splits)

lemma exec_busy_inv: "busy_inv s \<Longrightarrow> busy_inv (exec s e)"
proof (cases e)
  case ClickProcess
  assume "busy_inv s"
  then show ?thesis
    using ClickProcess by (auto simp: busy_inv_def exec_def ocr_start_def)
next
  case (Settle i w)
  assume "busy_inv s"
  then show ?thesis
    using Settle by (auto simp: busy_inv_def exec_def ocr_finish_isProcessing)
next
  case (Submit p newId d0)
  assume "busy_inv s"
  then show ?thesis
    using Submit by (simp add: busy_inv_def exec_def handleSubmit_isProcessing)
next
  case (FileChange f)
  assume "busy_inv s"
  then show ?thesis
    using FileChange by (simp add: busy_inv_def exec_def split: option.splits)
qed (simp_all add: busy_inv_def exec_def edit_form_def)

lemma run_busy_inv: "busy_inv s \<Longrightarrow> busy_inv (run s es)"
  unfolding run_def by (induction es arbitrary: s) (simp_all add: exec_busy_inv)

lemma init_busy_inv: "busy_inv (init d0)"
  by (simp add: busy_inv_def init_def)

text \<open>
  C9. In every state the component reaches from its mount through events of its
  controls and settlings of its pending calls, at most one extraction is pending; while
  one is pending the busy flag is up, and a click on the process button then changes
  nothing, so no second extraction starts. A click that does start an extraction adds
  one pending call.
\<close>

theorem one_extraction_in_flight:
  "length (pending (run (init d0) es)) \<le> 1 \<and>
   (pending (run (init d0) es) \<noteq> [] \<longrightarrow>
      isProcessing (ui (run (init d0) es)) \<and>
      exec (run (init d0) es) ClickProcess = run (init d0) es) \<and>
   length (pending (exec (run (init d0) es) ClickProcess)) \<le> length (pending (run (init d0) es)) + 1"
proof -
  have inv: "busy_inv (run (init d0) es)"
    by (rule run_busy_inv [OF init_busy_inv])
  then show ?thesis
    by (auto simp: busy_inv_def exec_def)
qed

theorem one_extraction_in_flight_witness:
  "pending (run (init ''2024-05-01'') [SetMode UPLOAD, TypeOcrText ''Sold 5g'', ClickProcess]) =
     [\<lparr>c_ocrText = ''Sold 5g'', c_selectedFile = None, c_formData = default_form ''2024-05-01''\<rparr>] \<and>
   isProcessing (ui (run (init ''2024-05-01'') [SetMode UPLOAD, TypeOcrText ''Sold 5g'', ClickProcess])) \<and>
   run (init ''2024-05-01'') [SetMode UPLOAD, TypeOcrText ''Sold 5g'', ClickProcess, ClickProcess] =
     run (init ''2024-05-01'') [SetMode UPLOAD, TypeOcrText ''Sold 5g'', ClickProcess]"
proof -
  let ?es = "[SetMode UPLOAD, TypeOcrText ''Sold 5g'', ClickProcess]"
  have p: "pending (run (init ''2024-05-01'') ?es) =
      [\<lparr>c_ocrText = ''Sold 5g'', c_selectedFile = None, c_formData = default_form ''2024-05-01''\<rparr>]"
    by (simp add: run_def exec_def init_def ocr_returns_early_def trim_def is_ws_def
        closure_of_def ocr_start_def)
  then have ne: "pending (run (init ''2024-05-01'') ?es) \<noteq> []"
    by simp
  have more: "run (init ''2024-05-01'') (?es @ [ClickProcess]) =
      exec (run (init ''2024-05-01'') ?es) ClickProcess"
    by (simp add: run_def)
  show ?thesis
    using one_extraction_in_flight [of "''2024-05-01''" ?es] ne p more by simp
qed

section \<open>The error of rounding\<close>

lemma ipow_powi: "ipow b e = b powi e"
  by (simp add: ipow_def power_int_def power_inverse inverse_eq_divide power_one_over)

lemma bitlen_ge_1: "1 \<le> n \<Longrightarrow> 1 \<le> bitlen n"
  using bitlen_bounds [of n] bitlen_nonneg [of n]
  by (cases "bitlen n = 0") auto

lemma flog2_lower:
  assumes "0 < x"
  shows "2 powi (flog2 x) \<le> x"
proof (cases "1 \<le> x")
  case True
  define n where "n = \<lfloor>x\<rfloor>"
  have n1: "1 \<le> n"
    using True by (simp add: n_def)
  have b1: "1 \<le> bitlen n"
    by (rule bitlen_ge_1 [OF n1])
  have "2 ^ nat (bitlen n - 1) \<le> n"
    using bitlen_bounds [of n] n1 by simp
  then have "(of_int (2 ^ nat (bitlen n - 1)) :: rat) \<le> of_int n"
    by (simp only: of_int_le_iff)
  also have "\<dots> \<le> x"
    using floor_correct [of x] by (simp add: n_def)
  finally have "(2 :: rat) ^ nat (bitlen n - 1) \<le> x"
    by simp
  moreover have "flog2 x = bitlen n - 1"
    using True by (simp add: flog2_def n_def)
  ultimately show ?thesis
    using b1 by (simp add: power_int_def)
next
  case False
  define y where "y = 1 / x"
  define m where "m = \<lceil>y\<rceil> - 1"
  have y1: "1 < y"
    using False assms by (simp add: y_def)
  have m1: "1 \<le> m"
    using y1 by (simp add: m_def)
  have b1: "1 \<le> bitlen m"
    by (rule bitlen_ge_1 [OF m1])
  have "m + 1 \<le> 2 ^ nat (bitlen m)"
    using bitlen_bounds [of m] m1 by simp
  then have "(of_int (m + 1) :: rat) \<le> of_int (2 ^ nat (bitlen m))"
    by (simp only: of_int_le_iff)
  moreover have "y \<le> of_int (m + 1)"
    using ceiling_correct [of y] by (simp add: m_def)
  ultimately have "y \<le> 2 ^ nat (bitlen m)"
    by simp
  then have "1 / 2 ^ nat (bitlen m) \<le> 1 / y"
    using y1 by (simp add: frac_le)
  then have "1 / 2 ^ nat (bitlen m) \<le> x"
    using assms by (simp add: y_def)
  moreover have "flog2 x = - bitlen m"
    using False by (simp add: flog2_def m_def y_def)
  ultimately show ?thesis
    using b1 by (simp add: power_int_def power_inverse inverse_eq_divide power_one_over)
qed

lemma flog2_upper:
  assumes "0 < x"
  shows "x < 2 powi (flog2 x + 1)"
proof (cases "1 \<le> x")
  case True
  define n where "n = \<lfloor>x\<rfloor>"
  have n1: "1 \<le> n"
    using True by (simp add: n_def)
  have b1: "1 \<le> bitlen n"
    by (rule bitlen_ge_1 [OF n1])
  have "n + 1 \<le> 2 ^ nat (bitlen n)"
    using bitlen_bounds [of n] n1 by simp
  then have "(of_int (n + 1) :: rat) \<le> of_int (2 ^ nat (bitlen n))"
    by (simp only: of_int_le_iff)
  moreover have "x < of_int (n + 1)"
    using floor_correct [of x] by (simp add: n_def)
  ultimately have "x < 2 ^ nat (bitlen n)"
    by simp
  moreover have "flog2 x = bitlen n - 1"
    using True by (simp add: flog2_def n_def)
  ultimately show ?thesis
    using b1 by (simp add: power_int_def)
next
  case False
  define y where "y = 1 / x"
  define m where "m = \<lceil>y\<rceil> - 1"
  have y1: "1 < y"
    using False assms by (simp add: y_def)
  have m1: "1 \<le> m"
    using y1 by (simp add: m_def)
  have b1: "1 \<le> bitlen m"
    by (rule bitlen_ge_1 [OF m1])
  have "2 ^ nat (bitlen m - 1) \<le> m"
    using bitlen_bounds [of m] m1 by simp
  then have "(of_int (2 ^ nat (bitlen m - 1)) :: rat) \<le> of_int m"
    by (simp only: of_int_le_iff)
  then have "(2 :: rat) ^ nat (bitlen m - 1) \<le> of_int m"
    by simp
  moreover have "of_int m < y"
    using ceiling_correct [of y] by (simp add: m_def)
  ultimately have lt: "2 ^ nat (bitlen m - 1) < y"
    by (rule le_less_trans)
  have "1 / y < 1 / 2 ^ nat (bitlen m - 1)"
    using lt by (simp add: frac_less2)
  then have "x < 1 / 2 ^ nat (bitlen m - 1)"
    using assms by (simp add: y_def)
  moreover have "flog2 x = - bitlen m"
    using False by (simp add: flog2_def m_def y_def)
  moreover have "- bitlen m + 1 \<le> 0"
    using b1 by simp
  moreover have "nat (- (- bitlen m + 1)) = nat (bitlen m - 1)"
    by simp
  ultimately show ?thesis
    by (cases "bitlen m = 1") (simp_all add: power_int_def power_inverse inverse_eq_divide power_one_over)
qed

lemma round_half_even_error: "\<bar>of_int (round_half_even m) - m\<bar> \<le> 1 / 2"
proof -
  have "of_int \<lfloor>m\<rfloor> \<le> m" "m < of_int \<lfloor>m\<rfloor> + 1"
    using floor_correct [of m] by simp_all
  then show ?thesis
    by (auto simp: round_half_even_def Let_def abs_le_iff)
qed

lemma ulp_bound:
  assumes "x \<noteq> 0"
  shows "0 < ipow 2 (max (flog2 \<bar>x\<bar> - 52) (- 1074))"
    and "ipow 2 (max (flog2 \<bar>x\<bar> - 52) (- 1074)) \<le> \<bar>x\<bar> / 2 ^ 52 + 1 / 2 ^ 1074"
proof -
  show "0 < ipow 2 (max (flog2 \<bar>x\<bar> - 52) (- 1074))"
    by (simp add: ipow_powi)
  have pos: "0 < \<bar>x\<bar>"
    using assms by simp
  have a: "(2 :: rat) powi (flog2 \<bar>x\<bar> - 52) = 2 powi (flog2 \<bar>x\<bar>) / 2 ^ 52"
    by (simp add: power_int_diff)
  have "(2 :: rat) powi (flog2 \<bar>x\<bar> - 52) \<le> \<bar>x\<bar> / 2 ^ 52"
    unfolding a using flog2_lower [OF pos] by (simp add: divide_right_mono)
  moreover have "(2 :: rat) powi (- 1074) = 1 / 2 ^ 1074"
    by (simp add: power_int_minus_divide)
  moreover have "0 \<le> \<bar>x\<bar> / 2 ^ 52"
    by simp
  ultimately show "ipow 2 (max (flog2 \<bar>x\<bar> - 52) (- 1074)) \<le> \<bar>x\<bar> / 2 ^ 52 + 1 / 2 ^ 1074"
    unfolding ipow_powi max_def by (auto simp del: power_int_minus)
qed

lemma round64_error:
  assumes "\<bar>x\<bar> < 2 ^ 1023"
  shows "\<exists>y. round64 x = Fin y \<and> \<bar>y - x\<bar> \<le> \<bar>x\<bar> / 2 ^ 53 + 1 / 2 ^ 1075"
proof (cases "x = 0")
  case True
  then show ?thesis
    by (simp add: round64_def)
next
  case False
  define p where "p = ipow 2 (max (flog2 \<bar>x\<bar> - 52) (- 1074))"
  define n where "n = round_half_even (x / p)"
  define y where "y = of_int n * p"
  have p0: "0 < p" and p1: "p \<le> \<bar>x\<bar> / 2 ^ 52 + 1 / 2 ^ 1074"
    using ulp_bound [OF False] by (simp_all add: p_def)
  have "\<bar>of_int n - x / p\<bar> \<le> 1 / 2"
    unfolding n_def by (rule round_half_even_error)
  then have "\<bar>of_int n - x / p\<bar> * p \<le> 1 / 2 * p"
    using p0 by (simp add: mult_right_mono)
  moreover have "\<bar>of_int n - x / p\<bar> * p = \<bar>y - x\<bar>"
  proof -
    have "(of_int n - x / p) * p = y - x"
      using p0 by (simp add: y_def field_simps)
    then have "\<bar>y - x\<bar> = \<bar>of_int n - x / p\<bar> * \<bar>p\<bar>"
      by (simp add: abs_mult [symmetric])
    then show ?thesis
      using p0 by simp
  qed
  ultimately have e1: "\<bar>y - x\<bar> \<le> p / 2"
    by simp
  have e2: "\<bar>y - x\<bar> \<le> \<bar>x\<bar> / 2 ^ 53 + 1 / 2 ^ 1075"
    using e1 p1 by simp
  have "\<bar>y\<bar> \<le> \<bar>x\<bar> + \<bar>y - x\<bar>"
    by simp
  then have "\<bar>y\<bar> < 2 ^ 1024"
    using e2 assms by simp
  then have "round64 x = Fin y"
    using False by (simp add: round64_def Let_def y_def n_def p_def abs_less_iff not_le)
  then show ?thesis
    using e2 by blast
qed

lemma round64_Fin_bound: "round64 x = Fin y \<Longrightarrow> \<bar>y\<bar> < 2 ^ 1024"
  by (auto simp: round64_def Let_def abs_less_iff not_le split: if_splits)

lemma parse_unsigned_Fin_bound: "parse_unsigned s = Fin y \<Longrightarrow> \<bar>y\<bar> < 2 ^ 1024"
  by (auto simp: parse_unsigned_def Let_def split: if_splits dest: round64_Fin_bound)

lemma jneg_Fin: "jneg x = Fin y \<Longrightarrow> x = Fin (- y)"
  by (cases x) auto

lemma parseFloat_Fin_bound:
  assumes "parseFloat s = Fin y"
  shows "\<bar>y\<bar> < 2 ^ 1024"
proof (cases "trimStart s")
  case Nil
  then show ?thesis
    using assms by (simp add: parseFloat_def)
next
  case (Cons c cs)
  then consider "jneg (parse_unsigned cs) = Fin y" | "parse_unsigned cs = Fin y"
    | "parse_unsigned (c # cs) = Fin y"
    using assms by (auto simp: parseFloat_def split: if_splits)
  then show ?thesis
  proof cases
    case 1
    then have "parse_unsigned cs = Fin (- y)"
      by (rule jneg_Fin)
    then show ?thesis
      using parse_unsigned_Fin_bound by fastforce
  next
    case 2
    then show ?thesis
      by (rule parse_unsigned_Fin_bound)
  next
    case 3
    then show ?thesis
      by (rule parse_unsigned_Fin_bound)
  qed
qed

lemma or_zero_Fin: "or_zero (Fin a) = Fin a"
  by (simp add: or_zero_def truthy_num_def)

section \<open>Reading back the text of a number\<close>

lemma digit_cases: "d < 10 \<Longrightarrow> d = 0 \<or> d = 1 \<or> d = 2 \<or> d = 3 \<or> d = 4 \<or> d = 5 \<or> d = 6 \<or> d = 7 \<or> d = 8 \<or> d = (9 :: nat)"
  by arith

lemma of_char_digit_char: "d < 10 \<Longrightarrow> (of_char (digit_char d) :: nat) = 48 + d"
  using digit_cases [of d] by (auto simp: digit_char_def)

lemma is_digit_digit_char: "d < 10 \<Longrightarrow> is_digit (digit_char d)"
  by (simp add: is_digit_def of_char_digit_char)

lemma digits_all_digits: "c \<in> set (digits n) \<Longrightarrow> is_digit c"
proof (induction n arbitrary: c rule: digits.induct)
  case (1 n)
  show ?case
  proof (cases "n < 10")
    case True
    then show ?thesis
      using "1.prems" by (simp add: digits.simps [of n] is_digit_digit_char)
  next
    case False
    then show ?thesis
      using "1.prems" "1.IH" by (auto simp: digits.simps [of n] is_digit_digit_char)
  qed
qed

lemma digits_not_empty: "digits n \<noteq> []"
  by (simp add: digits.simps [of n])

lemma digits_val_digits:
  "digits_val acc (digits n @ rest) = digits_val (acc * 10 ^ length (digits n) + n) rest"
proof (induction n arbitrary: acc rest rule: digits.induct)
  case (1 n)
  show ?case
  proof (cases "n < 10")
    case True
    then show ?thesis
      by (simp add: digits.simps [of n] of_char_digit_char mult.commute)
  next
    case False
    have "digits_val acc (digits n @ rest) =
        digits_val acc (digits (n div 10) @ (digit_char (n mod 10) # rest))"
      using False by (simp add: digits.simps [of n])
    also have "\<dots> = digits_val (acc * 10 ^ length (digits (n div 10)) + n div 10)
        (digit_char (n mod 10) # rest)"
      using False by (rule "1.IH")
    also have "\<dots> = digits_val (acc * 10 ^ length (digits n) + n) rest"
      using False by (simp add: digits.simps [of n] of_char_digit_char algebra_simps)
    finally show ?thesis .
  qed
qed

lemma digits_val_zeros:
  "digits_val acc (replicate m (CHR ''0'') @ rest) = digits_val (acc * 10 ^ m) rest"
  by (induction m arbitrary: acc) (simp_all add: algebra_simps)

lemma digits_length_bounds:
  "n < 10 ^ length (digits n) \<and> (length (digits n) = 1 \<or> 10 ^ (length (digits n) - 1) \<le> n)"
proof (induction n rule: digits.induct)
  case (1 n)
  show ?case
  proof (cases "n < 10")
    case True
    then show ?thesis
      by (simp add: digits.simps [of n])
  next
    case False
    then have IH: "n div 10 < 10 ^ length (digits (n div 10))"
      "length (digits (n div 10)) = 1 \<or> 10 ^ (length (digits (n div 10)) - 1) \<le> n div 10"
      using "1.IH" by simp_all
    have len: "length (digits n) = Suc (length (digits (n div 10)))"
      using False by (simp add: digits.simps [of n])
    have "n < 10 * 10 ^ length (digits (n div 10))"
      using IH(1) by simp
    moreover have "10 ^ length (digits (n div 10)) \<le> n"
    proof (cases "length (digits (n div 10)) = 1")
      case True
      then show ?thesis
        using False by simp
    next
      case F: False
      then have "10 ^ (length (digits (n div 10)) - 1) \<le> n div 10"
        using IH(2) by simp
      then have "10 * 10 ^ (length (digits (n div 10)) - 1) \<le> n"
        by simp
      moreover have "length (digits (n div 10)) \<noteq> 0"
        using digits_not_empty by simp
      ultimately show ?thesis
        by (cases "length (digits (n div 10))") simp_all
    qed
    ultimately show ?thesis
      by (simp add: len)
  qed
qed

lemma digits_length:
  assumes "1 \<le> k" and "10 ^ (k - 1) \<le> n" and "n < (10 :: nat) ^ k"
  shows "length (digits n) = k"
proof -
  let ?L = "length (digits n)"
  have L1: "1 \<le> ?L"
    using digits_not_empty [of n] by (cases "digits n") simp_all
  have up: "n < 10 ^ ?L" and lo: "?L = 1 \<or> 10 ^ (?L - 1) \<le> n"
    using digits_length_bounds [of n] by simp_all
  have "\<not> ?L < k"
  proof
    assume "?L < k"
    then have "(10 :: nat) ^ ?L \<le> 10 ^ (k - 1)"
      by (intro power_increasing) simp_all
    then show False
      using up assms(2) by linarith
  qed
  moreover have "\<not> k < ?L"
  proof
    assume a: "k < ?L"
    then have "?L \<noteq> 1"
      using assms(1) by simp
    then have "10 ^ (?L - 1) \<le> n"
      using lo by simp
    moreover have "(10 :: nat) ^ k \<le> 10 ^ (?L - 1)"
      using a by (intro power_increasing) simp_all
    ultimately show False
      using assms(3) by linarith
  qed
  ultimately show ?thesis
    by simp
qed

lemma takeWhile_digits:
  assumes "\<And>c. c \<in> set ds \<Longrightarrow> is_digit c" and "rest = [] \<or> \<not> is_digit (hd rest)"
  shows "takeWhile is_digit (ds @ rest) = ds" and "dropWhile is_digit (ds @ rest) = rest"
  using assms by (cases rest; simp)+

lemma takeWhile_all_digits:
  "(\<And>c. c \<in> set ds \<Longrightarrow> is_digit c) \<Longrightarrow> takeWhile is_digit ds = ds"
  by (simp add: takeWhile_eq_all_conv)

lemma while_all_digits:
  assumes "\<forall>c\<in>set ds. is_digit c"
  shows "takeWhile is_digit ds = ds" and "dropWhile is_digit ds = []"
  using assms by (simp_all add: takeWhile_eq_all_conv)

lemma takeWhile_digits_of: "takeWhile is_digit (digits m) = digits m"
  by (rule takeWhile_all_digits) (rule digits_all_digits)

lemma digits_val_digits0: "digits_val 0 (digits n) = n"
  using digits_val_digits [of 0 n "[]"] by simp

lemma parse_exponent_empty: "parse_exponent [] = 0"
  by (simp add: parse_exponent_def)

lemma parse_exponent_plus: "parse_exponent (CHR ''e'' # CHR ''+'' # digits m) = int m"
  by (simp add: parse_exponent_def takeWhile_digits_of digits_val_digits0)

lemma parse_exponent_minus: "parse_exponent (CHR ''e'' # CHR ''-'' # digits m) = - int m"
  by (simp add: parse_exponent_def takeWhile_digits_of digits_val_digits0 digits_not_empty)

lemma not_digit_chars: "\<not> is_digit (CHR ''e'')" "\<not> is_digit (CHR ''.'')" "\<not> is_digit (CHR ''I'')"
  "\<not> is_digit (CHR ''-'')" "\<not> is_digit (CHR ''+'')" "is_digit (CHR ''0'')"
  by (simp_all add: is_digit_def)

lemma not_ws_digit: "is_digit c \<Longrightarrow> \<not> is_ws c"
  by (auto simp: is_digit_def is_ws_def)

lemma no_Infinity:
  assumes "s \<noteq> []" and "is_digit (hd s)"
  shows "take 8 s \<noteq> ''Infinity''"
proof
  assume "take 8 s = ''Infinity''"
  then have "hd s = CHR ''I''"
    using assms(1) by (cases s) simp_all
  then show False
    using assms(2) not_digit_chars(3) by simp
qed

lemma parse_unsigned_plain:
  assumes ne: "ip \<noteq> []" and ip: "\<And>c. c \<in> set ip \<Longrightarrow> is_digit c"
    and rest: "rest = [] \<or> hd rest = CHR ''e''"
  shows "parse_unsigned (ip @ rest) =
    round64 (of_nat (digits_val 0 ip) * ipow 10 (parse_exponent rest))"
proof -
  have r: "rest = [] \<or> \<not> is_digit (hd rest)"
    using rest not_digit_chars(1) by auto
  have hd: "is_digit (hd (ip @ rest))"
    using ne ip by (cases ip) simp_all
  have inf: "take 8 (ip @ rest) \<noteq> ''Infinity''"
    using no_Infinity [of "ip @ rest"] ne hd by simp
  have tw: "takeWhile is_digit (ip @ rest) = ip" and dw: "dropWhile is_digit (ip @ rest) = rest"
    using takeWhile_digits [where ds = ip and rest = rest, OF ip r] by simp_all
  show ?thesis
  proof (cases rest)
    case Nil
    show ?thesis
      using inf ip ne unfolding Nil
      by (simp add: parse_unsigned_def Let_def while_all_digits)
  next
    case (Cons c cs)
    then have "c = CHR ''e''"
      using rest by simp
    then show ?thesis
      using inf tw dw ne Cons by (simp add: parse_unsigned_def Let_def)
  qed
qed

lemma parse_unsigned_point:
  assumes ne: "ip \<noteq> []" and ip: "\<And>c. c \<in> set ip \<Longrightarrow> is_digit c"
    and fp: "\<And>c. c \<in> set fp \<Longrightarrow> is_digit c"
    and rest: "rest = [] \<or> hd rest = CHR ''e''"
  shows "parse_unsigned (ip @ CHR ''.'' # fp @ rest) =
    round64 (of_nat (digits_val 0 (ip @ fp)) * ipow 10 (parse_exponent rest - int (length fp)))"
proof -
  have r: "rest = [] \<or> \<not> is_digit (hd rest)"
    using rest not_digit_chars(1) by auto
  have hd: "is_digit (hd (ip @ CHR ''.'' # fp @ rest))"
    using ne ip by (cases ip) simp_all
  have inf: "take 8 (ip @ CHR ''.'' # fp @ rest) \<noteq> ''Infinity''"
    using no_Infinity [of "ip @ CHR ''.'' # fp @ rest"] ne hd by simp
  have tw: "takeWhile is_digit (ip @ CHR ''.'' # fp @ rest) = ip"
    and dw: "dropWhile is_digit (ip @ CHR ''.'' # fp @ rest) = CHR ''.'' # fp @ rest"
    using takeWhile_digits [where ds = ip and rest = "CHR ''.'' # fp @ rest", OF ip]
      not_digit_chars(2) by simp_all
  have tw2: "takeWhile is_digit (fp @ rest) = fp" and dw2: "dropWhile is_digit (fp @ rest) = rest"
    using takeWhile_digits [where ds = fp and rest = rest, OF fp r] by simp_all
  show ?thesis
    using inf ne by (simp add: parse_unsigned_def Let_def tw dw tw2 dw2)
qed

lemma parse_exponent_render:
  "parse_exponent (CHR ''e'' # (if 0 \<le> n - 1 then ''+'' else ''-'') @ digits (nat \<bar>n - 1\<bar>)) = n - 1"
  by (simp add: parse_exponent_plus parse_exponent_minus)

lemma ipow_nonneg: "0 \<le> e \<Longrightarrow> ipow b e = b ^ nat e"
  by (simp add: ipow_def)

lemma parse_render:
  assumes k: "1 \<le> k" and lo: "10 ^ (k - 1) \<le> s" and hi: "s < 10 ^ k"
  shows "parse_unsigned (render_dec k n s) = round64 (of_nat s * ipow 10 (n - int k))"
    and "render_dec k n s \<noteq> []" and "is_digit (hd (render_dec k n s))"
proof -
  let ?ds = "digits s"
  have len: "length ?ds = k"
    by (rule digits_length [OF k lo hi])
  have dig: "\<And>c. c \<in> set ?ds \<Longrightarrow> is_digit c"
    by (rule digits_all_digits)
  have ne: "?ds \<noteq> []"
    by (rule digits_not_empty)
  have hd: "is_digit (hd ?ds)"
    using ne dig by (cases ?ds) simp_all
  let ?e = "CHR ''e'' # (if 0 \<le> n - 1 then ''+'' else ''-'') @ digits (nat \<bar>n - 1\<bar>)"
  consider (a) "int k \<le> n" "n \<le> 21"
    | (b) "\<not> int k \<le> n" "0 < n" "n \<le> 21"
    | (c) "\<not> (0 < n \<and> n \<le> 21)" "- 6 < n" "n \<le> 0"
    | (d) "\<not> (0 < n \<and> n \<le> 21)" "\<not> (- 6 < n \<and> n \<le> 0)" "k = 1"
    | (e) "\<not> (0 < n \<and> n \<le> 21)" "\<not> (- 6 < n \<and> n \<le> 0)" "k \<noteq> 1"
    using k by fastforce
  then have "parse_unsigned (render_dec k n s) = round64 (of_nat s * ipow 10 (n - int k)) \<and>
      render_dec k n s \<noteq> [] \<and> is_digit (hd (render_dec k n s))"
  proof cases
    case a
    let ?z = "replicate (nat (n - int k)) (CHR ''0'')"
    have r: "render_dec k n s = ?ds @ ?z"
      using a by (simp add: render_dec_def Let_def)
    have v: "digits_val 0 (?ds @ ?z) = s * 10 ^ nat (n - int k)"
      using digits_val_zeros [of s "nat (n - int k)" "[]"] by (simp add: digits_val_digits)
    have "parse_unsigned ((?ds @ ?z) @ []) =
        round64 (of_nat (digits_val 0 (?ds @ ?z)) * ipow 10 (parse_exponent []))"
      using ne dig not_digit_chars(6) by (intro parse_unsigned_plain) auto
    then have "parse_unsigned (render_dec k n s) = round64 (of_nat s * ipow 10 (n - int k))"
      using a by (simp add: r v parse_exponent_empty ipow_nonneg ipow_def)
    then show ?thesis
      using ne hd by (simp add: r)
  next
    case b
    let ?ip = "take (nat n) ?ds" and ?fp = "drop (nat n) ?ds"
    have r: "render_dec k n s = ?ip @ CHR ''.'' # ?fp @ []"
      using b by (simp add: render_dec_def Let_def)
    have ipne: "?ip \<noteq> []"
      using b ne by simp
    have "parse_unsigned (?ip @ CHR ''.'' # ?fp @ []) =
        round64 (of_nat (digits_val 0 (?ip @ ?fp)) * ipow 10 (parse_exponent [] - int (length ?fp)))"
      using ipne dig by (intro parse_unsigned_point) (auto dest: in_set_takeD in_set_dropD)
    moreover have "int (length ?fp) = int k - n"
      using b len by simp
    ultimately have "parse_unsigned (render_dec k n s) = round64 (of_nat s * ipow 10 (n - int k))"
      by (simp add: r parse_exponent_empty digits_val_digits0)
    moreover have "hd (?ip @ CHR ''.'' # ?fp @ []) = hd ?ds"
      using ipne ne b by (cases ?ds) (simp_all add: take_Cons')
    ultimately show ?thesis
      using hd r by simp
  next
    case c
    let ?z = "replicate (nat (- n)) (CHR ''0'')"
    have r: "render_dec k n s = ''0'' @ CHR ''.'' # (?z @ ?ds) @ []"
      using c k by (simp add: render_dec_def Let_def)
    have "parse_unsigned (''0'' @ CHR ''.'' # (?z @ ?ds) @ []) =
        round64 (of_nat (digits_val 0 (''0'' @ (?z @ ?ds))) *
          ipow 10 (parse_exponent [] - int (length (?z @ ?ds))))"
      using dig not_digit_chars(6) by (intro parse_unsigned_point) auto
    moreover have "digits_val 0 (''0'' @ (?z @ ?ds)) = s"
      using digits_val_zeros [of 0 "nat (- n)" ?ds] by (simp add: digits_val_digits0)
    moreover have "int (length (?z @ ?ds)) = int k - n"
      using c len by simp
    ultimately have "parse_unsigned (render_dec k n s) = round64 (of_nat s * ipow 10 (n - int k))"
      using c len by (simp add: r parse_exponent_empty)
    then show ?thesis
      using not_digit_chars(6) by (simp add: r)
  next
    case d
    have r: "render_dec k n s = ?ds @ ?e"
      using d k by (auto simp: render_dec_def Let_def)
    have "parse_unsigned (?ds @ ?e) =
        round64 (of_nat (digits_val 0 ?ds) * ipow 10 (parse_exponent ?e))"
      using ne dig by (intro parse_unsigned_plain) auto
    then have "parse_unsigned (render_dec k n s) = round64 (of_nat s * ipow 10 (n - 1))"
      by (simp only: r parse_exponent_render digits_val_digits0)
    moreover have "n - int k = n - 1"
      using d(3) by simp
    ultimately have "parse_unsigned (render_dec k n s) = round64 (of_nat s * ipow 10 (n - int k))"
      by (simp only:)
    then show ?thesis
      using ne hd by (simp add: r)
  next
    case e
    let ?ip = "take 1 ?ds" and ?fp = "drop 1 ?ds"
    have r: "render_dec k n s = ?ip @ CHR ''.'' # ?fp @ ?e"
      using e k by (auto simp: render_dec_def Let_def)
    have ipne: "?ip \<noteq> []"
      using ne by (cases ?ds) simp_all
    have "parse_unsigned (?ip @ CHR ''.'' # ?fp @ ?e) =
        round64 (of_nat (digits_val 0 (?ip @ ?fp)) * ipow 10 (parse_exponent ?e - int (length ?fp)))"
      using ipne dig by (intro parse_unsigned_point) (auto dest: in_set_takeD in_set_dropD)
    moreover have "n - 1 - int (length ?fp) = n - int k"
      using k len by simp
    moreover have "?ip @ ?fp = ?ds"
      by simp
    ultimately have "parse_unsigned (render_dec k n s) = round64 (of_nat s * ipow 10 (n - int k))"
      by (simp only: r parse_exponent_render digits_val_digits0)
    moreover have "hd (?ip @ CHR ''.'' # ?fp @ ?e) = hd ?ds"
      using ne by (cases ?ds) simp_all
    ultimately show ?thesis
      using hd r by simp
  qed
  then show "parse_unsigned (render_dec k n s) = round64 (of_nat s * ipow 10 (n - int k))"
    and "render_dec k n s \<noteq> []" and "is_digit (hd (render_dec k n s))"
    by simp_all
qed

lemma closest_in: "closest x k cs = Some c \<Longrightarrow> c \<in> set cs"
  by (induction cs arbitrary: c) (auto split: option.splits if_splits)

lemma closest_nonempty: "cs \<noteq> [] \<Longrightarrow> closest x k cs \<noteq> None"
  by (cases cs) (auto split: option.splits)

lemma cands_props:
  assumes "(s, n) \<in> set (cands x k m)"
  shows "10 ^ (k - 1) \<le> s" and "s < 10 ^ k"
    and "round64 (of_nat s * ipow 10 (n - int k)) = Fin x"
  using assms by (auto simp: cands_def Let_def split: if_splits)

lemma shortest_Some:
  assumes "shortest x fuel k0 = Some (k, n, s)"
  shows "k0 \<le> k \<and> 10 ^ (k - 1) \<le> s \<and> s < 10 ^ k \<and>
    round64 (of_nat s * ipow 10 (n - int k)) = Fin x"
  using assms
proof (induction x fuel k0 rule: shortest.induct)
  case (1 x fuel k0)
  let ?cs = "cands x k0 (dec_exp x) @ cands x k0 (dec_exp x + 1)"
  have f: "fuel \<noteq> 0"
    using "1.prems" by (subst (asm) shortest.simps) (simp split: if_splits)
  show ?case
  proof (cases "closest x k0 ?cs")
    case None
    then have "shortest x (fuel - 1) (Suc k0) = Some (k, n, s)"
      using "1.prems" f by (simp add: shortest.simps [of x fuel k0])
    then show ?thesis
      using "1.IH" f None by auto
  next
    case (Some c)
    then have c: "c = (s, n)" and k: "k = k0"
      using "1.prems" f by (auto simp: shortest.simps [of x fuel k0] split: prod.splits)
    have "(s, n) \<in> set ?cs"
      using closest_in [OF Some] c by simp
    then have "(s, n) \<in> set (cands x k0 (dec_exp x)) \<or> (s, n) \<in> set (cands x k0 (dec_exp x + 1))"
      by simp
    then show ?thesis
      using cands_props k by auto
  qed
qed

lemma shortest_finds:
  assumes "k0 \<le> K" and "K < k0 + fuel" and "cands x K (dec_exp x) \<noteq> []"
  shows "shortest x fuel k0 \<noteq> None"
  using assms
proof (induction x fuel k0 rule: shortest.induct)
  case (1 x fuel k0)
  let ?cs = "cands x k0 (dec_exp x) @ cands x k0 (dec_exp x + 1)"
  have f: "fuel \<noteq> 0"
    using "1.prems" by auto
  show ?case
  proof (cases "closest x k0 ?cs")
    case None
    then have "?cs = []"
      using closest_nonempty by blast
    then have "k0 \<noteq> K"
      using "1.prems"(3) by auto
    then have "Suc k0 \<le> K" "K < Suc k0 + (fuel - 1)"
      using "1.prems" by simp_all
    then have "shortest x (fuel - 1) (Suc k0) \<noteq> None"
      using "1.IH" f None "1.prems"(3) by simp
    then show ?thesis
      using f None by (simp add: shortest.simps [of x fuel k0])
  next
    case (Some c)
    then show ?thesis
      using f by (simp add: shortest.simps [of x fuel k0] split: prod.splits)
  qed
qed

section \<open>The binary64 values\<close>

lemma round_half_even_of_int: "round_half_even (of_int n) = n"
  by (simp add: round_half_even_def)

lemma round_half_even_le: "m \<le> of_int b \<Longrightarrow> round_half_even m \<le> b"
proof -
  assume a: "m \<le> of_int b"
  have f: "\<lfloor>m\<rfloor> \<le> b"
    using a by (simp add: floor_le_iff)
  have "\<lfloor>m\<rfloor> + 1 \<le> b" if "0 < m - of_int \<lfloor>m\<rfloor>"
  proof -
    have "of_int \<lfloor>m\<rfloor> < (of_int b :: rat)"
      using that a by linarith
    then have "\<lfloor>m\<rfloor> < b"
      by (simp only: of_int_less_iff)
    then show ?thesis
      by simp
  qed
  then show ?thesis
    using f by (auto simp: round_half_even_def Let_def)
qed

lemma round_half_even_ge: "of_int a \<le> m \<Longrightarrow> a \<le> round_half_even m"
proof -
  assume "of_int a \<le> m"
  then have "a \<le> \<lfloor>m\<rfloor>"
    by (simp add: le_floor_iff)
  then show ?thesis
    by (auto simp: round_half_even_def Let_def)
qed

lemma powi2_less_cancel: "(2 :: rat) powi a < 2 powi b \<Longrightarrow> a < b"
proof (rule ccontr)
  assume "(2 :: rat) powi a < 2 powi b" and "\<not> a < b"
  then have "(2 :: rat) powi b \<le> 2 powi a"
    by (intro power_int_increasing) simp_all
  then show False
    using \<open>(2 :: rat) powi a < 2 powi b\<close> by simp
qed

lemma flog2_less: "0 < v \<Longrightarrow> v < 2 powi j \<Longrightarrow> flog2 v < j"
  using flog2_lower [of v] powi2_less_cancel [of "flog2 v" j] by simp

lemma flog2_unique:
  assumes "0 < v" and "2 powi j \<le> v" and "v < 2 powi (j + 1)"
  shows "flog2 v = j"
proof -
  have "flog2 v < j + 1"
    using assms(1,3) by (rule flog2_less)
  moreover have "j < flog2 v + 1"
    using flog2_upper [OF assms(1)] assms(2) powi2_less_cancel [of j "flog2 v + 1"] by simp
  ultimately show ?thesis
    by simp
qed

lemma binary64_0: "binary64 0"
  unfolding binary64_def by (simp add: exI [of _ 0])

lemma powi2_split: "e' \<le> e \<Longrightarrow> (2 :: rat) powi e = of_int (2 ^ nat (e - e')) * 2 powi e'"
proof -
  assume a: "e' \<le> e"
  have "(2 :: rat) powi e = 2 powi ((e - e') + e')"
    by simp
  also have "\<dots> = 2 powi (e - e') * 2 powi e'"
    by (rule power_int_add) simp
  also have "(2 :: rat) powi (e - e') = 2 ^ nat (e - e')"
    using a by (simp add: power_int_def)
  finally show ?thesis
    by simp
qed

lemma round64_binary64:
  assumes "round64 x = Fin y"
  shows "binary64 y"
proof (cases "x = 0 \<or> y = 0")
  case True
  then have "y = 0"
    using assms by (auto simp: round64_def)
  then show ?thesis
    by (simp add: binary64_0)
next
  case False
  then have x0: "x \<noteq> 0" and y0: "y \<noteq> 0"
    by simp_all
  define e where "e = max (flog2 \<bar>x\<bar> - 52) (- 1074)"
  define p where "p = (2 :: rat) powi e"
  define m where "m = round_half_even (x / p)"
  have p0: "0 < p"
    by (simp add: p_def)
  have y: "y = of_int m * p"
    using assms x0 by (simp add: round64_def Let_def e_def p_def m_def ipow_powi split: if_splits)
  have yb: "\<bar>y\<bar> < 2 ^ 1024"
    by (rule round64_Fin_bound [OF assms])
  have e1: "flog2 \<bar>x\<bar> - 52 \<le> e" and e2: "- 1074 \<le> e"
    by (simp_all add: e_def)
  have "\<bar>x\<bar> < 2 powi (flog2 \<bar>x\<bar> + 1)"
    using x0 by (intro flog2_upper) simp
  also have "\<dots> \<le> 2 powi (e + 53)"
    using e1 by (intro power_int_increasing) simp_all
  also have "\<dots> = p * 2 ^ 53"
    by (simp add: p_def power_int_add)
  finally have "\<bar>x\<bar> / p < 2 ^ 53"
    using p0 by (simp add: pos_divide_less_eq mult.commute)
  then have xp: "\<bar>x / p\<bar> < 2 ^ 53"
    using p0 by simp
  have up: "x / p \<le> of_int (2 ^ 53)" and dn: "of_int (- (2 ^ 53)) \<le> x / p"
    using xp by (simp_all del: abs_divide)
  have "m \<le> 2 ^ 53"
    unfolding m_def using up by (rule round_half_even_le)
  moreover have "- (2 ^ 53) \<le> m"
    unfolding m_def using dn by (rule round_half_even_ge)
  ultimately have mb: "\<bar>m\<bar> \<le> 2 ^ 53"
    by simp
  have ya: "\<bar>y\<bar> = of_int \<bar>m\<bar> * p"
    using p0 by (simp add: y abs_mult)
  let ?e' = "max (flog2 \<bar>y\<bar> - 52) (- 1074)"
  have "\<exists>n :: int. y = of_int n * 2 powi ?e'"
  proof (cases "\<bar>m\<bar> = 2 ^ 53")
    case True
    then have "\<bar>y\<bar> = 2 ^ 53 * p"
      by (simp add: ya)
    then have yp: "\<bar>y\<bar> = 2 powi (e + 53)"
      by (simp add: p_def power_int_add)
    have "flog2 \<bar>y\<bar> = e + 53"
      using y0 by (intro flog2_unique) (simp_all add: yp power_int_add)
    then have e': "?e' = e + 1"
      using e2 by simp
    have "m = 2 ^ 53 \<or> m = - (2 ^ 53)"
      using True by linarith
    then have "m = 2 * (m div 2)"
      by auto
    then have "(of_int m :: rat) = of_int (m div 2) * 2"
      by (metis mult.commute of_int_mult of_int_numeral)
    then have "y = of_int (m div 2) * 2 powi (e + 1)"
      by (simp add: y p_def power_int_add)
    then show ?thesis
      unfolding e' by blast
  next
    case False
    then have "\<bar>m\<bar> + 1 \<le> 2 ^ 53"
      using mb by simp
    then have "(of_int (\<bar>m\<bar> + 1) :: rat) \<le> of_int (2 ^ 53)"
      by (simp only: of_int_le_iff)
    then have "(of_int \<bar>m\<bar> :: rat) < 2 ^ 53"
      by simp
    then have "\<bar>y\<bar> < 2 ^ 53 * p"
      using p0 by (simp add: ya)
    then have "\<bar>y\<bar> < 2 powi (e + 53)"
      by (simp add: p_def power_int_add)
    then have "flog2 \<bar>y\<bar> < e + 53"
      using y0 by (intro flog2_less) simp_all
    then have "?e' \<le> e"
      using e2 by simp
    then have "(2 :: rat) powi e = of_int (2 ^ nat (e - ?e')) * 2 powi ?e'"
      by (rule powi2_split)
    then have "y = of_int (m * 2 ^ nat (e - ?e')) * 2 powi ?e'"
      by (simp add: y p_def)
    then show ?thesis
      by blast
  qed
  then show ?thesis
    using yb by (simp add: binary64_def ipow_powi)
qed

lemma binary64_round64:
  assumes "binary64 y"
  shows "round64 y = Fin y"
proof (cases "y = 0")
  case True
  then show ?thesis
    by (simp add: round64_def)
next
  case False
  obtain n :: int where n: "y = of_int n * ipow 2 (max (flog2 \<bar>y\<bar> - 52) (- 1074))"
    using assms by (auto simp: binary64_def)
  have p0: "0 < ipow 2 (max (flog2 \<bar>y\<bar> - 52) (- 1074))"
    by (simp add: ipow_powi)
  have "y / ipow 2 (max (flog2 \<bar>y\<bar> - 52) (- 1074)) = of_int n"
    using p0 by (subst n) simp
  then have "of_int (round_half_even (y / ipow 2 (max (flog2 \<bar>y\<bar> - 52) (- 1074)))) *
      ipow 2 (max (flog2 \<bar>y\<bar> - 52) (- 1074)) = y"
    using n by (simp add: round_half_even_of_int)
  moreover have "\<bar>y\<bar> < 2 ^ 1024"
    using assms by (simp add: binary64_def)
  ultimately show ?thesis
    using False by (simp add: round64_def Let_def abs_less_iff not_le)
qed

lemma binary64_minus: "binary64 y \<Longrightarrow> binary64 (- y)"
proof -
  assume "binary64 y"
  then obtain n :: int where "\<bar>y\<bar> < 2 ^ 1024"
    and "y = of_int n * ipow 2 (max (flog2 \<bar>y\<bar> - 52) (- 1074))"
    by (auto simp: binary64_def)
  then have "\<bar>- y\<bar> < 2 ^ 1024"
    and "- y = of_int (- n) * ipow 2 (max (flog2 \<bar>- y\<bar> - 52) (- 1074))"
    by simp_all
  then show ?thesis
    unfolding binary64_def by blast
qed

lemma floorlog_ge_1: "0 < n \<Longrightarrow> 1 \<le> floorlog 10 n"
  by (simp add: floorlog_def)

lemma dec_exp_bounds:
  assumes "0 < x"
  shows "10 powi (dec_exp x - 1) \<le> x" and "x < 10 powi (dec_exp x)"
proof -
  have "10 powi (dec_exp x - 1) \<le> x \<and> x < 10 powi (dec_exp x)"
  proof (cases "1 \<le> x")
    case True
    define n where "n = nat \<lfloor>x\<rfloor>"
    define f where "f = floorlog 10 n"
    have n0: "0 < n"
      using True by (simp add: n_def)
    have f1: "1 \<le> f"
      unfolding f_def by (rule floorlog_ge_1 [OF n0])
    have b: "10 ^ (f - 1) \<le> n" "n < 10 ^ f"
      using floorlog_bounds [of n 10] n0 by (simp_all add: f_def)
    have nx: "of_nat n \<le> x" "x < of_nat n + 1"
      using True floor_correct [of x] by (simp_all add: n_def)
    have "(10 :: rat) ^ (f - 1) \<le> of_nat n"
      using b(1) by simp
    then have lo: "(10 :: rat) ^ (f - 1) \<le> x"
      using nx(1) by (rule order_trans)
    have "n + 1 \<le> 10 ^ f"
      using b(2) by simp
    then have "(of_nat (n + 1) :: rat) \<le> of_nat (10 ^ f)"
      by (simp only: of_nat_le_iff)
    then have "of_nat n + 1 \<le> (10 :: rat) ^ f"
      by simp
    with nx(2) have hi: "x < (10 :: rat) ^ f"
      by (rule less_le_trans)
    have d: "dec_exp x = int f"
      using True by (simp add: dec_exp_def n_def f_def)
    have "(10 :: rat) powi (int f - 1) = 10 ^ (f - 1)"
      using f1 by (simp add: power_int_def nat_diff_distrib)
    then show ?thesis
      using lo hi by (simp add: d)
  next
    case False
    define y where "y = 1 / x"
    define m where "m = nat (\<lceil>y\<rceil> - 1)"
    define f where "f = floorlog 10 m"
    have y1: "1 < y"
      using False assms by (simp add: y_def)
    have c: "of_int \<lceil>y\<rceil> - 1 < y" "y \<le> of_int \<lceil>y\<rceil>"
      using ceiling_correct [of y] by simp_all
    have c2: "2 \<le> \<lceil>y\<rceil>"
      using y1 by (simp add: le_ceiling_iff)
    have m0: "0 < m"
      using c2 by (simp add: m_def)
    have my: "of_nat m < y" "y \<le> of_nat m + 1"
      using c c2 by (simp_all add: m_def)
    have f1: "1 \<le> f"
      unfolding f_def by (rule floorlog_ge_1 [OF m0])
    have b: "10 ^ (f - 1) \<le> m" "m < 10 ^ f"
      using floorlog_bounds [of m 10] m0 by (simp_all add: f_def)
    have "(10 :: rat) ^ (f - 1) \<le> of_nat m"
      using b(1) by simp
    then have lt: "(10 :: rat) ^ (f - 1) < y"
      using my(1) by (rule le_less_trans)
    have "m + 1 \<le> 10 ^ f"
      using b(2) by simp
    then have "(of_nat (m + 1) :: rat) \<le> of_nat (10 ^ f)"
      by (simp only: of_nat_le_iff)
    then have "of_nat m + 1 \<le> (10 :: rat) ^ f"
      by simp
    with my(2) have le: "y \<le> (10 :: rat) ^ f"
      by (rule order_trans)
    have x: "x = 1 / y"
      using assms by (simp add: y_def)
    have "1 / 10 ^ f \<le> 1 / y"
      using le y1 by (intro divide_left_mono) simp_all
    then have lo: "1 / 10 ^ f \<le> x"
      by (simp add: x)
    have "1 / y < 1 / 10 ^ (f - 1)"
      using lt by (simp add: frac_less2)
    then have hi: "x < 1 / 10 ^ (f - 1)"
      by (simp add: x)
    have d: "dec_exp x = 1 - int f"
      using False by (simp add: dec_exp_def y_def m_def f_def)
    have "(10 :: rat) powi (- int f) = 1 / 10 ^ f"
      by (simp add: power_int_minus_divide)
    moreover have "(10 :: rat) powi (1 - int f) = 1 / 10 ^ (f - 1)"
    proof -
      have "1 - int f = - int (f - 1)"
        using f1 by simp
      then show ?thesis
        by (simp only: power_int_minus_divide power_int_of_nat)
    qed
    ultimately show ?thesis
      using lo hi by (simp add: d)
  qed
  then show "10 powi (dec_exp x - 1) \<le> x" and "x < 10 powi (dec_exp x)"
    by simp_all
qed

lemma powi10_less_cancel: "(10 :: rat) powi a < 10 powi b \<Longrightarrow> a < b"
proof (rule ccontr)
  assume "(10 :: rat) powi a < 10 powi b" and "\<not> a < b"
  then have "(10 :: rat) powi b \<le> 10 powi a"
    by (intro power_int_increasing) simp_all
  then show False
    using \<open>(10 :: rat) powi a < 10 powi b\<close> by simp
qed

text \<open>
  A positive multiple of a power of two no smaller than \<open>2^(-j)\<close> is a natural number
  when multiplied by \<open>10^j\<close>, and is at least \<open>2^(-j)\<close>.
\<close>

lemma scaled_nat:
  assumes n: "(y :: rat) = of_int n * 2 powi e" and pos: "0 < y" and e: "- int j \<le> e"
  shows "\<exists>N :: nat. of_nat N = y * 10 ^ j" and "1 / 2 ^ j \<le> y"
proof -
  have n0: "0 < n"
  proof (rule ccontr)
    assume "\<not> 0 < n"
    then have "(of_int n :: rat) \<le> 0"
      by simp
    then have "of_int n * (2 :: rat) powi e \<le> 0"
      by (intro mult_nonpos_nonneg) simp_all
    then show False
      using pos n by simp
  qed
  have p: "(2 :: rat) powi e = of_int (2 ^ nat (e + int j)) * 2 powi (- int j)"
    using powi2_split [of "- int j" e] e by simp
  have q: "(2 :: rat) powi (- int j) = 1 / 2 ^ j"
    by (simp add: power_int_minus_divide)
  have "((2 :: rat) * 5) ^ j = 2 ^ j * 5 ^ j"
    by (rule power_mult_distrib)
  then have t: "(10 :: rat) ^ j = 2 ^ j * 5 ^ j"
    by simp
  have "y * 10 ^ j = of_int n * of_int (2 ^ nat (e + int j)) * (1 / 2 ^ j) * (2 ^ j * 5 ^ j)"
    by (simp only: n p q t mult.assoc)
  also have "\<dots> = of_int n * of_int (2 ^ nat (e + int j)) * 5 ^ j"
    by simp
  also have "\<dots> = of_int (n * 2 ^ nat (e + int j) * 5 ^ j)"
    by simp
  finally have z: "y * 10 ^ j = of_int (n * 2 ^ nat (e + int j) * 5 ^ j)" .
  have "0 \<le> n * 2 ^ nat (e + int j) * 5 ^ j"
    using n0 by simp
  then have "of_nat (nat (n * 2 ^ nat (e + int j) * 5 ^ j)) = y * 10 ^ j"
    unfolding z by (simp del: of_int_mult of_int_power)
  then show "\<exists>N :: nat. of_nat N = y * 10 ^ j"
    by blast
  have "1 \<le> n" and "(1 :: int) \<le> 2 ^ nat (e + int j)"
    using n0 by simp_all
  then have "1 * 1 \<le> n * 2 ^ nat (e + int j)"
    by (intro mult_mono) simp_all
  then have "(of_int 1 :: rat) \<le> of_int (n * 2 ^ nat (e + int j))"
    by (simp only: of_int_le_iff mult_1)
  then have "1 * (2 :: rat) powi (- int j) \<le> of_int (n * 2 ^ nat (e + int j)) * 2 powi (- int j)"
    by (intro mult_right_mono) simp_all
  then show "1 / 2 ^ j \<le> y"
    by (simp add: n p q)
qed

lemma shortest_exists:
  assumes b: "binary64 y" and pos: "0 < y"
  shows "shortest y 1400 1 \<noteq> None"
proof -
  define n0 where "n0 = dec_exp y"
  define j :: nat where "j = 1074"
  define K where "K = nat (n0 + int j)"
  obtain n :: int where n: "y = of_int n * 2 powi (max (flog2 \<bar>y\<bar> - 52) (- 1074))"
    using b by (auto simp: binary64_def ipow_powi)
  have e: "- int j \<le> max (flog2 \<bar>y\<bar> - 52) (- 1074)"
    by (simp add: j_def)
  obtain N :: nat where N: "of_nat N = y * 10 ^ j"
    using scaled_nat(1) [OF n pos e] by blast
  have small: "1 / 2 ^ j \<le> y"
    by (rule scaled_nat(2) [OF n pos e])
  have lo: "10 powi (n0 - 1) \<le> y" and hi: "y < 10 powi n0"
    using dec_exp_bounds [OF pos] by (simp_all add: n0_def)
  have "(10 :: rat) powi (- int j) = 1 / 10 ^ j"
    by (simp add: power_int_minus_divide)
  also have "\<dots> \<le> 1 / 2 ^ j"
    by (intro divide_left_mono power_mono mult_pos_pos) simp_all
  also note small
  also note hi
  finally have n1: "- int j < n0"
    by (rule powi10_less_cancel)
  have "y < 2 ^ 1024"
    using b pos by (simp add: binary64_def)
  also have "(2 :: rat) ^ 1024 \<le> 10 powi 309"
    by simp
  finally have "10 powi (n0 - 1) < (10 :: rat) powi 309"
    using lo by simp
  then have n2: "n0 \<le> 309"
    using powi10_less_cancel [of "n0 - 1" 309] by simp
  have K1: "1 \<le> K" and K2: "K < 1 + 1400" and nK: "n0 - int K = - int j"
    using n1 n2 by (simp_all add: K_def j_def)
  have ip: "ipow 10 (n0 - int K) = 1 / 10 ^ j"
    unfolding nK by (simp add: ipow_def)
  have fl: "nat \<lfloor>y / ipow 10 (n0 - int K)\<rfloor> = N"
  proof -
    have "y / ipow 10 (n0 - int K) = of_int (int N)"
      using N by (simp add: ip)
    then show ?thesis
      by (simp only: floor_of_int nat_int)
  qed
  have "(10 :: rat) powi (n0 - 1) * 10 ^ j \<le> y * 10 ^ j"
    using lo by (intro mult_right_mono) simp_all
  moreover have "(10 :: rat) powi (n0 - 1) * 10 ^ j = 10 powi (n0 - 1 + int j)"
    by (subst power_int_add) simp_all
  moreover have "n0 - 1 + int j = int (K - 1)"
    using n1 by (simp add: K_def)
  ultimately have "(10 :: rat) ^ (K - 1) \<le> of_nat N"
    by (simp add: N)
  then have c1: "10 ^ (K - 1) \<le> N"
    by simp
  have "y * 10 ^ j < 10 powi n0 * 10 ^ j"
    using hi by (intro mult_strict_right_mono) simp_all
  moreover have "(10 :: rat) powi n0 * 10 ^ j = 10 powi (n0 + int j)"
    by (subst power_int_add) simp_all
  moreover have "n0 + int j = int K"
    using n1 by (simp add: K_def)
  ultimately have "of_nat N < (10 :: rat) ^ K"
    by (simp add: N)
  then have c2: "N < 10 ^ K"
    by simp
  have "of_nat N * ipow 10 (n0 - int K) = y"
    by (simp add: N ip)
  then have c3: "round64 (of_nat N * ipow 10 (n0 - int K)) = Fin y"
    using binary64_round64 [OF b] by simp
  have "(N, n0) \<in> set (cands y K n0)"
    using c1 c2 c3 by (simp add: cands_def Let_def fl)
  then have "cands y K (dec_exp y) \<noteq> []"
    by (auto simp: n0_def)
  then show ?thesis
    using K1 K2 by (intro shortest_finds [of 1 K]) simp_all
qed

lemma pos_to_string_reads_back:
  assumes "binary64 y" and "0 < y"
  shows "parse_unsigned (pos_to_string y) = Fin y"
    and "pos_to_string y \<noteq> []" and "is_digit (hd (pos_to_string y))"
proof -
  obtain k n s where f: "shortest y 1400 1 = Some (k, n, s)"
    using shortest_exists [OF assms] by (cases "shortest y 1400 1") auto
  have p: "1 \<le> k" "10 ^ (k - 1) \<le> s" "s < 10 ^ k"
    "round64 (of_nat s * ipow 10 (n - int k)) = Fin y"
    using shortest_Some [OF f] by simp_all
  have r: "pos_to_string y = render_dec k n s"
    unfolding pos_to_string_def f by simp
  show "parse_unsigned (pos_to_string y) = Fin y"
    and "pos_to_string y \<noteq> []" and "is_digit (hd (pos_to_string y))"
    using parse_render [OF p(1-3), of n] p(4) by (simp_all add: r)
qed

lemma parseFloat_digit_first:
  assumes "s \<noteq> []" and "is_digit (hd s)"
  shows "parseFloat s = parse_unsigned s"
proof -
  obtain c cs where s: "s = c # cs"
    using assms(1) by (cases s) auto
  have "\<not> is_ws c" "c \<noteq> CHR ''-''" "c \<noteq> CHR ''+''"
    using assms(2) not_ws_digit not_digit_chars by (auto simp: s)
  then show ?thesis
    by (simp add: parseFloat_def trimStart_def s)
qed

text \<open>The text of a number reads back as the number.\<close>

lemma toString_reads_back:
  assumes "binary64 y"
  shows "parseFloat (toString (Fin y)) = Fin y"
proof -
  consider "y = 0" | "0 < y" | "y < 0"
    by linarith
  then show ?thesis
  proof cases
    case 1
    then show ?thesis
      by (simp add: toString_def parseFloat_eval round64_def)
  next
    case 2
    then show ?thesis
      using pos_to_string_reads_back [OF assms 2] parseFloat_digit_first
      by (simp add: toString_def)
  next
    case 3
    then have pos: "0 < - y"
      by simp
    have "\<not> is_ws (CHR ''-'')"
      by (simp add: is_ws_def)
    then have "parseFloat (CHR ''-'' # pos_to_string (- y)) = jneg (parse_unsigned (pos_to_string (- y)))"
      by (simp add: parseFloat_def trimStart_def)
    then show ?thesis
      using 3 pos_to_string_reads_back(1) [OF binary64_minus [OF assms] pos]
      by (simp add: toString_def)
  qed
qed

section \<open>The round trip of the rate\<close>

lemma parseFloat_99e12: "parseFloat ''99000000000000'' = Fin 99000000000000"
  by (simp add: parseFloat_eval round64_eval)

lemma parseFloat_90e12: "parseFloat ''90000000000000'' = Fin 90000000000000"
  by (simp add: parseFloat_eval round64_eval)

lemma parseFloat_1_1: "parseFloat ''1.1'' = Fin (2476979795053773 / 2251799813685248)"
  by (simp add: parseFloat_eval round64_eval)

lemma jdiv_99e12_1_1:
  "jdiv (Fin 99000000000000) (Fin (2476979795053773 / 2251799813685248)) = Fin 90000000000000"
  by (simp add: round64_eval)

lemma jmul_1_1_90e12:
  "jmul (Fin (2476979795053773 / 2251799813685248)) (Fin 90000000000000) =
     Fin (6336000000000001 / 64)"
  by (simp add: round64_eval)

lemma toString_90e12: "toString (Fin 90000000000000) = ''90000000000000''"
  by (simp add: toString_eval round64_eval)

text \<open>
  C3, as stated, fails: with the quantity 1.1 and the total 99000000000000 the derived
  rate is 90000000000000, and the taxable amount computed from the quantity and this rate
  is 99000000000000.015625, which is 1/64 away from the total.
\<close>

theorem rate_round_trip_off:
  "handleTotalChange ''99000000000000'' ((default_form ''2024-05-01'')\<lparr>quantityGrams := ''1.1''\<rparr>) =
     (default_form ''2024-05-01'')\<lparr>quantityGrams := ''1.1'', ratePerGram := ''90000000000000''\<rparr> \<and>
   parseFloat ''99000000000000'' = Fin 99000000000000 \<and>
   taxable (calculateTotals
     ((default_form ''2024-05-01'')\<lparr>quantityGrams := ''1.1'', ratePerGram := ''90000000000000'',
        gstRate := ''0''\<rparr>)) = Fin (6336000000000001 / 64) \<and>
   (1 / 100 :: rat) < \<bar>6336000000000001 / 64 - 99000000000000\<bar>"
proof -
  have "handleTotalChange ''99000000000000'' ((default_form ''2024-05-01'')\<lparr>quantityGrams := ''1.1''\<rparr>) =
     (default_form ''2024-05-01'')\<lparr>quantityGrams := ''1.1'', ratePerGram := ''90000000000000''\<rparr>"
    by (simp add: handleTotalChange_def isNaN_def default_form_def parseFloat_99e12 parseFloat_1_1
        jdiv_99e12_1_1 toString_90e12 del: jdiv.simps)
  moreover have "taxable (calculateTotals
     ((default_form ''2024-05-01'')\<lparr>quantityGrams := ''1.1'', ratePerGram := ''90000000000000'',
        gstRate := ''0''\<rparr>)) = Fin (6336000000000001 / 64)"
    by (simp add: calculateTotals_def default_form_def parseFloat_90e12 parseFloat_1_1
        or_zero_Fin jmul_1_1_90e12 Let_def del: jmul.simps)
  ultimately show ?thesis
    by (simp add: parseFloat_99e12)
qed

text \<open>
  C3, amended. For a quantity of at least 0.001 and a total of magnitude at most
  \<open>4.5 * 10^13\<close>, both as \<open>parseFloat\<close> reads them: the taxable amount that
  \<open>calculateTotals\<close> computes from the form after \<open>handleTotalChange\<close> is a finite number
  within 0.01 of the total.
\<close>

theorem rate_round_trip:
  assumes qty: "parseFloat (quantityGrams fd) = Fin q" and q: "1 / 1000 \<le> q"
    and tot: "parseFloat v = Fin t" and t: "\<bar>t\<bar> \<le> 45000000000000"
  shows "\<exists>p. taxable (calculateTotals (handleTotalChange v fd)) = Fin p \<and> \<bar>p - t\<bar> \<le> 1 / 100"
proof -
  have q0: "0 < q"
    using q by simp
  have qmax: "q < 2 ^ 1024"
    using parseFloat_Fin_bound [OF qty] by simp
  have "\<bar>t / q\<bar> = \<bar>t\<bar> / q"
    using q0 by simp
  also have "\<dots> \<le> 45000000000000 / q"
    using t q0 by (simp add: divide_right_mono)
  also have "\<dots> \<le> 45000000000000 / (1 / 1000)"
    using q by (intro divide_left_mono) simp_all
  finally have "\<bar>t / q\<bar> < 2 ^ 1023"
    by simp
  then obtain r where r: "round64 (t / q) = Fin r"
    and re: "\<bar>r - t / q\<bar> \<le> \<bar>t / q\<bar> / 2 ^ 53 + 1 / 2 ^ 1075"
    using round64_error by blast
  have d: "jdiv (Fin t) (Fin q) = Fin r"
    using q0 r by simp
  have h: "handleTotalChange v fd = fd\<lparr>ratePerGram := toString (Fin r)\<rparr>"
    using q0 by (simp add: handleTotalChange_def isNaN_def qty tot d del: jdiv.simps)
  have reads: "parseFloat (toString (Fin r)) = Fin r"
    by (rule toString_reads_back [OF round64_binary64 [OF r]])
  have c: "taxable (calculateTotals (handleTotalChange v fd)) = round64 (q * r)"
    by (simp add: h calculateTotals_def Let_def qty reads or_zero_Fin)
  have "q * r - t = q * (r - t / q)"
    using q0 by (simp add: field_simps)
  then have "\<bar>q * r - t\<bar> = q * \<bar>r - t / q\<bar>"
    using q0 by (simp add: abs_mult)
  also have "\<dots> \<le> q * (\<bar>t / q\<bar> / 2 ^ 53 + 1 / 2 ^ 1075)"
    using re q0 by (simp add: mult_left_mono)
  also have "\<dots> = \<bar>t\<bar> / 2 ^ 53 + q / 2 ^ 1075"
    using q0 by (simp add: field_simps)
  also have "\<dots> \<le> 45000000000000 / 2 ^ 53 + 2 ^ 1024 / 2 ^ 1075"
    using t qmax by (intro add_mono divide_right_mono) simp_all
  finally have e1: "\<bar>q * r - t\<bar> \<le> 45000000000000 / 2 ^ 53 + 2 ^ 1024 / 2 ^ 1075" .
  have "\<bar>q * r\<bar> \<le> \<bar>t\<bar> + \<bar>q * r - t\<bar>"
    by simp
  then have m: "\<bar>q * r\<bar> \<le> 45000000000000 + 1"
    using e1 t by simp
  then have "\<bar>q * r\<bar> < 2 ^ 1023"
    by simp
  then obtain p where p: "round64 (q * r) = Fin p"
    and pe: "\<bar>p - q * r\<bar> \<le> \<bar>q * r\<bar> / 2 ^ 53 + 1 / 2 ^ 1075"
    using round64_error by blast
  have "\<bar>q * r\<bar> / 2 ^ 53 \<le> (45000000000000 + 1) / 2 ^ 53"
    using m by (intro divide_right_mono) simp_all
  then have e2: "\<bar>p - q * r\<bar> \<le> (45000000000000 + 1) / 2 ^ 53 + 1 / 2 ^ 1075"
    using pe by simp
  have "\<bar>p - t\<bar> \<le> \<bar>p - q * r\<bar> + \<bar>q * r - t\<bar>"
    by simp
  then have "\<bar>p - t\<bar> \<le> 1 / 100"
    using e1 e2 by simp
  then show ?thesis
    using c p by simp
qed

theorem rate_round_trip_witness:
  "\<exists>p. taxable (calculateTotals (handleTotalChange ''100''
      ((default_form ''2024-05-01'')\<lparr>quantityGrams := ''4''\<rparr>))) = Fin p \<and>
     \<bar>p - 100\<bar> \<le> 1 / 100"
proof (rule rate_round_trip)
  show "parseFloat (quantityGrams ((default_form ''2024-05-01'')\<lparr>quantityGrams := ''4''\<rparr>)) = Fin 4"
    by (simp add: parseFloat_4)
  show "1 / 1000 \<le> (4 :: rat)"
    by simp
  show "parseFloat ''100'' = Fin 100"
    by (rule parseFloat_100)
  show "\<bar>100 :: rat\<bar> \<le> 45000000000000"
    by simp
qed

section \<open>An accepted submission\<close>

lemma parseFloat_0_7: "parseFloat ''0.7'' = Fin (3152519739159347 / 4503599627370496)"
  by (simp add: parseFloat_eval round64_eval)

lemma parseFloat_1e14: "parseFloat ''100000000000000'' = Fin 100000000000000"
  by (simp add: parseFloat_eval round64_eval)

lemma jmul_0_7_1e14:
  "jmul (Fin (3152519739159347 / 4503599627370496)) (Fin 100000000000000) =
     Fin (8959999999999999 / 128)"
  by (simp add: round64_eval)

lemma jdiv_3_100: "jdiv (Fin 3) (Fin 100) = Fin (1080863910568919 / 36028797018963968)"
  by (simp add: round64_eval)

lemma jmul_T_c:
  "jmul (Fin (8959999999999999 / 128)) (Fin (1080863910568919 / 36028797018963968)) =
     Fin (8601599999999999 / 4096)"
  by (simp add: round64_eval)

lemma jadd_T_G:
  "jadd (Fin (8959999999999999 / 128)) (Fin (8601599999999999 / 4096)) =
     Fin (4614399999999999 / 64)"
  by (simp add: round64_eval)

text \<open>
  C7, as stated, fails in its tolerance: a purchase of 0.7 g at 100000000000000 with 3%
  tax is accepted with the total 72099999999999.984375 on its invoice, which is more
  than 0.01 away from quantity * rate * (1 + tax / 100) of the invoice's own numbers.
\<close>

theorem handleSubmit_total_off:
  "handleSubmit \<lparr>currentStock = Fin 10, lockDate = None\<rparr> ''id1'' ''2024-05-01''
     (st0\<lparr>formData := (default_form ''2024-05-01'')\<lparr>partyName := ''ABC Traders'',
          quantityGrams := ''0.7'', ratePerGram := ''100000000000000''\<rparr>\<rparr>) =
     (st0,
      [\<lparr>inv_id = ''id1'', inv_date = ''2024-05-01'', inv_type = PURCHASE,
        inv_partyName = ''ABC Traders'',
        inv_quantityGrams = Fin (3152519739159347 / 4503599627370496),
        inv_ratePerGram = Fin 100000000000000, inv_gstRate = Fin 3,
        inv_gstAmount = Fin (8601599999999999 / 4096),
        inv_taxableAmount = Fin (8959999999999999 / 128),
        inv_totalAmount = Fin (4614399999999999 / 64)\<rparr>]) \<and>
   (1 / 100 :: rat) <
     \<bar>4614399999999999 / 64 -
       3152519739159347 / 4503599627370496 * 100000000000000 * (1 + 3 / 100)\<bar>"
  by (simp add: handleSubmit_def Let_def date_locked_def default_form_def st0_def
      calculateTotals_def or_zero_Fin parseFloat_0_7 parseFloat_1e14 parseFloat_3
      jmul_0_7_1e14 jdiv_3_100 jmul_T_c jadd_T_G del: jmul.simps jdiv.simps jadd.simps)

lemma round64_error_le:
  assumes "\<bar>x\<bar> \<le> b" and "b < 2 ^ 1023"
  shows "\<exists>y. round64 x = Fin y \<and> \<bar>y - x\<bar> \<le> b / 2 ^ 53 + 1 / 2 ^ 1075 \<and>
           \<bar>y\<bar> \<le> b + (b / 2 ^ 53 + 1 / 2 ^ 1075)"
proof -
  have "\<bar>x\<bar> < 2 ^ 1023"
    using assms by simp
  then obtain y where y: "round64 x = Fin y" and e: "\<bar>y - x\<bar> \<le> \<bar>x\<bar> / 2 ^ 53 + 1 / 2 ^ 1075"
    using round64_error by blast
  have "\<bar>x\<bar> / 2 ^ 53 \<le> b / 2 ^ 53"
    using assms(1) by (intro divide_right_mono) simp_all
  then have e': "\<bar>y - x\<bar> \<le> b / 2 ^ 53 + 1 / 2 ^ 1075"
    using e by simp
  have "\<bar>y\<bar> \<le> \<bar>x\<bar> + \<bar>y - x\<bar>"
    by simp
  then have "\<bar>y\<bar> \<le> b + (b / 2 ^ 53 + 1 / 2 ^ 1075)"
    using e' assms(1) by simp
  then show ?thesis
    using y e' by blast
qed

lemma totals_error:
  assumes qr: "\<bar>q * r\<bar> \<le> 10 ^ 13" and g: "\<bar>g\<bar> \<le> 100"
  shows "\<exists>S. jadd (jmul (Fin q) (Fin r)) (jmul (jmul (Fin q) (Fin r)) (jdiv (Fin g) (Fin 100))) = Fin S \<and>
           \<bar>S - q * r * (1 + g / 100)\<bar> \<le> 1 / 100"
proof -
  obtain T where T: "round64 (q * r) = Fin T"
    and Te: "\<bar>T - q * r\<bar> \<le> 10 ^ 13 / 2 ^ 53 + 1 / 2 ^ 1075"
    and Tb: "\<bar>T\<bar> \<le> 10 ^ 13 + (10 ^ 13 / 2 ^ 53 + 1 / 2 ^ 1075)"
    using round64_error_le [OF qr] by auto
  have "\<bar>g / 100\<bar> \<le> 1"
    using g by simp
  then obtain c where c: "round64 (g / 100) = Fin c"
    and ce: "\<bar>c - g / 100\<bar> \<le> 1 / 2 ^ 53 + 1 / 2 ^ 1075"
    and cb: "\<bar>c\<bar> \<le> 1 + (1 / 2 ^ 53 + 1 / 2 ^ 1075)"
    using round64_error_le [of "g / 100" 1] by auto
  have Tb': "\<bar>T\<bar> \<le> 10 ^ 13 + 1"
    using Tb by simp
  have cb': "\<bar>c\<bar> \<le> 2"
    using cb by simp
  have "\<bar>T * c\<bar> \<le> (10 ^ 13 + 1) * 2"
    unfolding abs_mult using Tb' cb' by (intro mult_mono) simp_all
  then have Tc: "\<bar>T * c\<bar> \<le> 2 * 10 ^ 13 + 2"
    by simp
  obtain G where G: "round64 (T * c) = Fin G"
    and Ge: "\<bar>G - T * c\<bar> \<le> (2 * 10 ^ 13 + 2) / 2 ^ 53 + 1 / 2 ^ 1075"
    and Gb: "\<bar>G\<bar> \<le> 2 * 10 ^ 13 + 2 + ((2 * 10 ^ 13 + 2) / 2 ^ 53 + 1 / 2 ^ 1075)"
    using round64_error_le [OF Tc] by auto
  have "\<bar>T + G\<bar> \<le> \<bar>T\<bar> + \<bar>G\<bar>"
    by simp
  then have TG: "\<bar>T + G\<bar> \<le> 3 * 10 ^ 13 + 4"
    using Tb' Gb by simp
  obtain S where S: "round64 (T + G) = Fin S"
    and Se: "\<bar>S - (T + G)\<bar> \<le> (3 * 10 ^ 13 + 4) / 2 ^ 53 + 1 / 2 ^ 1075"
    using round64_error_le [OF TG] by auto
  have "\<bar>(T - q * r) * c\<bar> \<le> (10 ^ 13 / 2 ^ 53 + 1 / 2 ^ 1075) * 2"
    unfolding abs_mult using Te cb' by (intro mult_mono) simp_all
  moreover have "\<bar>q * r * (c - g / 100)\<bar> \<le> 10 ^ 13 * (1 / 2 ^ 53 + 1 / 2 ^ 1075)"
    unfolding abs_mult [of "q * r"] using qr ce by (intro mult_mono) simp_all
  moreover have "T * c - q * r * (g / 100) = (T - q * r) * c + q * r * (c - g / 100)"
    by (simp add: algebra_simps)
  ultimately have Tce: "\<bar>T * c - q * r * (g / 100)\<bar> \<le>
      (10 ^ 13 / 2 ^ 53 + 1 / 2 ^ 1075) * 2 + 10 ^ 13 * (1 / 2 ^ 53 + 1 / 2 ^ 1075)"
    using abs_triangle_ineq [of "(T - q * r) * c" "q * r * (c - g / 100)"] by simp
  have "S - q * r * (1 + g / 100) =
      (S - (T + G)) + (T - q * r) + (G - T * c) + (T * c - q * r * (g / 100))"
    by (simp add: algebra_simps)
  then have "\<bar>S - q * r * (1 + g / 100)\<bar> \<le>
      \<bar>S - (T + G)\<bar> + \<bar>T - q * r\<bar> + \<bar>G - T * c\<bar> + \<bar>T * c - q * r * (g / 100)\<bar>"
    by linarith
  then have "\<bar>S - q * r * (1 + g / 100)\<bar> \<le> 1 / 100"
    using Se Te Ge Tce by simp
  moreover have "jadd (jmul (Fin q) (Fin r)) (jmul (jmul (Fin q) (Fin r)) (jdiv (Fin g) (Fin 100))) = Fin S"
    by (simp add: T c G S)
  ultimately show ?thesis
    by blast
qed

text \<open>
  C7, amended. A submission that passes the three rules calls \<open>onAdd\<close> once, with an
  invoice that carries the identifier \<open>generateId()\<close> returned and the totals of
  \<open>calculateTotals\<close> on the current form data, its total being the sum of its taxable
  amount and its tax in the arithmetic of the language; the form data are then the
  default ones (the date of the day, a purchase, empty party name, quantity and rate, 3%
  tax), and the staged text, the selected file and the error are cleared. When the
  quantity, the rate and the tax rate parse to finite numbers \<open>q\<close>, \<open>r\<close>, \<open>g\<close> with
  \<open>|q * r| \<le> 10^13\<close> and \<open>|g| \<le> 100\<close>, these are the numbers on the invoice and its total is
  within 0.01 of \<open>q * r * (1 + g / 100)\<close>.
\<close>

theorem handleSubmit_accepted:
  assumes "\<not> date_locked (lockDate p) (date (formData st))"
    and "partyName (formData st) \<noteq> []" and "quantityGrams (formData st) \<noteq> []"
    and "ratePerGram (formData st) \<noteq> []"
    and "\<not> (type (formData st) = SALE \<and>
            jgt (parseFloat (quantityGrams (formData st))) (currentStock p))"
  shows "\<exists>inv.
      handleSubmit p newId d0 st =
        (st\<lparr>error := [],
            formData := \<lparr>date = d0, type = PURCHASE, partyName = [], quantityGrams = [],
              ratePerGram = [], gstRate = ''3''\<rparr>,
            ocrText := [], selectedFile := None\<rparr>, [inv]) \<and>
      inv_id inv = newId \<and>
      inv_taxableAmount inv = taxable (calculateTotals (formData st)) \<and>
      inv_gstAmount inv = gstAmt (calculateTotals (formData st)) \<and>
      inv_totalAmount inv = total (calculateTotals (formData st)) \<and>
      inv_totalAmount inv = jadd (inv_taxableAmount inv) (inv_gstAmount inv) \<and>
      (\<forall>q r g. parseFloat (quantityGrams (formData st)) = Fin q \<and>
         parseFloat (ratePerGram (formData st)) = Fin r \<and>
         parseFloat (gstRate (formData st)) = Fin g \<and> \<bar>q * r\<bar> \<le> 10 ^ 13 \<and> \<bar>g\<bar> \<le> 100 \<longrightarrow>
         inv_quantityGrams inv = Fin q \<and> inv_ratePerGram inv = Fin r \<and> inv_gstRate inv = Fin g \<and>
         (\<exists>S. inv_totalAmount inv = Fin S \<and> \<bar>S - q * r * (1 + g / 100)\<bar> \<le> 1 / 100))"
proof -
  let ?fd = "formData st"
  let ?inv = "\<lparr>inv_id = newId, inv_date = date ?fd, inv_type = type ?fd,
      inv_partyName = partyName ?fd, inv_quantityGrams = parseFloat (quantityGrams ?fd),
      inv_ratePerGram = parseFloat (ratePerGram ?fd), inv_gstRate = parseFloat (gstRate ?fd),
      inv_gstAmount = gstAmt (calculateTotals ?fd),
      inv_taxableAmount = taxable (calculateTotals ?fd),
      inv_totalAmount = total (calculateTotals ?fd)\<rparr>"
  have 1: "handleSubmit p newId d0 st =
      (st\<lparr>error := [],
          formData := \<lparr>date = d0, type = PURCHASE, partyName = [], quantityGrams = [],
            ratePerGram = [], gstRate = ''3''\<rparr>,
          ocrText := [], selectedFile := None\<rparr>, [?inv])"
    using assms by (simp add: handleSubmit_def Let_def default_form_def)
  have 2: "total (calculateTotals ?fd) =
      jadd (taxable (calculateTotals ?fd)) (gstAmt (calculateTotals ?fd))"
    by (simp add: calculateTotals_def Let_def)
  have 3: "\<exists>S. total (calculateTotals ?fd) = Fin S \<and> \<bar>S - q * r * (1 + g / 100)\<bar> \<le> 1 / 100"
    if "parseFloat (quantityGrams ?fd) = Fin q" "parseFloat (ratePerGram ?fd) = Fin r"
      "parseFloat (gstRate ?fd) = Fin g" "\<bar>q * r\<bar> \<le> 10 ^ 13" "\<bar>g\<bar> \<le> 100" for q r g
    using totals_error [OF that(4,5)] that(1-3)
    by (simp add: calculateTotals_def Let_def or_zero_Fin del: jmul.simps jdiv.simps jadd.simps)
  show ?thesis
    using 1 2 3 by (intro exI [of _ ?inv]) auto
qed

theorem handleSubmit_accepted_witness:
  "\<exists>inv S.
      handleSubmit \<lparr>currentStock = Fin 10, lockDate = Some ''2024-03-31''\<rparr> ''id1'' ''2024-05-02''
        (st0\<lparr>formData := (default_form ''2024-05-01'')\<lparr>type := SALE, partyName := ''XYZ'',
           quantityGrams := ''10'', ratePerGram := ''6500''\<rparr>\<rparr>) =
        (st0\<lparr>formData := default_form ''2024-05-02''\<rparr>, [inv]) \<and>
      inv_id inv = ''id1'' \<and> inv_totalAmount inv = Fin S \<and>
      \<bar>S - 10 * 6500 * (1 + 3 / 100)\<bar> \<le> 1 / 100"
proof -
  let ?p = "\<lparr>currentStock = Fin 10, lockDate = Some ''2024-03-31''\<rparr>"
  let ?st = "st0\<lparr>formData := (default_form ''2024-05-01'')\<lparr>type := SALE, partyName := ''XYZ'',
           quantityGrams := ''10'', ratePerGram := ''6500''\<rparr>\<rparr>"
  have a: "\<not> date_locked (lockDate ?p) (date (formData ?st))"
    by (simp add: date_locked_def default_form_def)
  have b: "partyName (formData ?st) \<noteq> []" "quantityGrams (formData ?st) \<noteq> []"
    "ratePerGram (formData ?st) \<noteq> []"
    by simp_all
  have c: "\<not> (type (formData ?st) = SALE \<and>
      jgt (parseFloat (quantityGrams (formData ?st))) (currentStock ?p))"
    by (simp add: parseFloat_10)
  have d: "parseFloat (quantityGrams (formData ?st)) = Fin 10 \<and>
      parseFloat (ratePerGram (formData ?st)) = Fin 6500 \<and>
      parseFloat (gstRate (formData ?st)) = Fin 3 \<and> \<bar>10 * 6500 :: rat\<bar> \<le> 10 ^ 13 \<and> \<bar>3 :: rat\<bar> \<le> 100"
    by (simp add: default_form_def parseFloat_10 parseFloat_6500 parseFloat_3)
  obtain inv where i: "handleSubmit ?p ''id1'' ''2024-05-02'' ?st =
        (?st\<lparr>error := [],
            formData := \<lparr>date = ''2024-05-02'', type = PURCHASE, partyName = [], quantityGrams = [],
              ratePerGram = [], gstRate = ''3''\<rparr>,
            ocrText := [], selectedFile := None\<rparr>, [inv])"
    and j: "inv_id inv = ''id1''"
    and k: "\<forall>q r g. parseFloat (quantityGrams (formData ?st)) = Fin q \<and>
         parseFloat (ratePerGram (formData ?st)) = Fin r \<and>
         parseFloat (gstRate (formData ?st)) = Fin g \<and> \<bar>q * r\<bar> \<le> 10 ^ 13 \<and> \<bar>g\<bar> \<le> 100 \<longrightarrow>
         inv_quantityGrams inv = Fin q \<and> inv_ratePerGram inv = Fin r \<and> inv_gstRate inv = Fin g \<and>
         (\<exists>S. inv_totalAmount inv = Fin S \<and> \<bar>S - q * r * (1 + g / 100)\<bar> \<le> 1 / 100)"
    using handleSubmit_accepted [OF a b c, of "''id1''" "''2024-05-02''"] by blast
  from k d obtain S where s: "inv_totalAmount inv = Fin S"
    and t: "\<bar>S - 10 * 6500 * (1 + 3 / 100)\<bar> \<le> 1 / 100"
    by blast
  have "?st\<lparr>error := [],
            formData := \<lparr>date = ''2024-05-02'', type = PURCHASE, partyName = [], quantityGrams = [],
              ratePerGram = [], gstRate = ''3''\<rparr>,
            ocrText := [], selectedFile := None\<rparr> = st0\<lparr>formData := default_form ''2024-05-02''\<rparr>"
    by (simp add: st0_def default_form_def)
  then show ?thesis
    using i j s t by auto
qed

end
